theory Spec2Isabelle
  imports Main "HOL-Library.AList" "HOL-Library.Sublist"
begin

section \<open>Go maps in an explicit store\<close>

text \<open>
  A Go value of type \<^verbatim>\<open>map[string]string\<close> is a reference: it is either nil or points to
  a table that assignments and \<^verbatim>\<open>delete\<close> change in place.  The store lists the tables
  that were allocated so far, the address of a table being its index.  A table is kept as
  the list of its key/value pairs, in the order in which a \<^verbatim>\<open>range\<close> statement visits
  them; Go leaves that order open, so no theorem below may depend on it.  The keys of a
  table are distinct.
\<close>

type_synonym entries = "(string \<times> string) list"

type_synonym mapheap = "entries list"

datatype mapref = NilMap | MapAt nat

text \<open>\<^verbatim>\<open>make(map[string]string)\<close>: a new, empty table at the next free address.\<close>

definition makeMap :: "mapheap \<Rightarrow> mapheap \<times> nat" where
  "makeMap h = (h @ [[]], length h)"

text \<open>The pairs visited by \<^verbatim>\<open>for k, v := range m\<close>; ranging over the nil map visits none.\<close>

definition rangeMap :: "mapheap \<Rightarrow> mapref \<Rightarrow> entries" where
  "rangeMap h r = (case r of NilMap \<Rightarrow> [] | MapAt a \<Rightarrow> h ! a)"

text \<open>\<^verbatim>\<open>m[k] = v\<close> on the table at address \<open>a\<close>.\<close>

definition assign :: "mapheap \<Rightarrow> nat \<Rightarrow> string \<Rightarrow> string \<Rightarrow> mapheap" where
  "assign h a k v = h[a := AList.update k v (h ! a)]"

text \<open>A reference is valid in a store when it is nil or points to an allocated table.\<close>

definition valid_ref :: "mapheap \<Rightarrow> mapref \<Rightarrow> bool" where
  "valid_ref h r = (case r of NilMap \<Rightarrow> True | MapAt a \<Rightarrow> a < length h)"

section \<open>The Metadata Normalizer: the first part of parse.go\<close>

text \<open>
  \<^verbatim>\<open>normalizeKey\<close> returns the canonical key and whether the raw key is accepted.
\<close>

definition normalizeKey :: "string \<Rightarrow> string \<times> bool" where
  "normalizeKey k =
     (if k = ''user'' then (''db.user'', True)
      else if k = ''application_name'' then (''db.application'', True)
      else if k = ''dbname'' then (''db.name'', True)
      else if k = ''host'' \<or> k = ''port'' then (''out.'' @ k, True)
      else ('''', False))"

text \<open>
  \<^verbatim>\<open>normalize\<close>, called \<open>normalize_meta\<close> here because HOL has a constant of that name,
  allocates the result \<open>m\<close>, ranges over \<open>meta\<close> and stores every accepted pair under its
  canonical key; \<open>normalize_step\<close> is the body of the loop.  \<open>m\<close> is new, so the loop
  never writes the table it reads.
\<close>

definition normalize_step :: "nat \<Rightarrow> string \<times> string \<Rightarrow> mapheap \<Rightarrow> mapheap" where
  "normalize_step m kv h =
     (case kv of (k, v) \<Rightarrow>
        (case normalizeKey k of (nk, ok) \<Rightarrow> if ok then assign h m nk v else h))"

definition normalize_meta :: "mapheap \<Rightarrow> mapref \<Rightarrow> mapheap \<times> mapref" where
  "normalize_meta h meta =
     (case makeMap h of (h1, m) \<Rightarrow>
        (fold (normalize_step m) (rangeMap h1 meta) h1, MapAt m))"

text \<open>
  \<^verbatim>\<open>parseDSN\<close>.  The two parsers of package \<^verbatim>\<open>parsedsn\<close> are not part of the sources at
  hand; they are parameters here.  A parser gets the store and the DSN and returns the store
  it leaves, the map it returns (possibly nil) and the error (\<open>None\<close> is Go's nil error).
  The named results \<open>meta\<close> and \<open>err\<close> start as nil, which is what an unmatched
  \<^verbatim>\<open>switch\<close> leaves in them.
\<close>

type_synonym 'e parser = "mapheap \<Rightarrow> string \<Rightarrow> mapheap \<times> mapref \<times> 'e option"

definition parseDSN ::
  "'e parser \<Rightarrow> 'e parser \<Rightarrow> mapheap \<Rightarrow> string \<Rightarrow> string \<Rightarrow> mapheap \<times> mapref \<times> 'e option" where
  "parseDSN Postgres MySQL h driverType dsn =
     (case (if driverType = ''*pq.Driver'' then Postgres h dsn
            else if driverType = ''*mysql.MySQLDriver'' then MySQL h dsn
            else (h, NilMap, None)) of
        (h1, meta, err) \<Rightarrow>
          (case normalize_meta h1 meta of (h2, meta') \<Rightarrow> (h2, meta', err)))"

text \<open>
  The Tag Key Mapping table as the specification prints it (section 3), raw attribute to
  canonical key.  It is the yardstick \<open>normalizeKey\<close> is compared with.
\<close>

definition TagKeyMapping :: "(string \<times> string) list" where
  "TagKeyMapping =
     [(''user'', ''db.user''), (''application_name'', ''db.application''),
      (''dbname'', ''db.name''), (''host'', ''out.host''), (''port'', ''out.port'')]"

text \<open>Reading the table from right to left.\<close>

definition raw_of :: "string \<Rightarrow> string option" where
  "raw_of nk = map_of (map (\<lambda>(k, nk). (nk, k)) TagKeyMapping) nk"

text \<open>Whether \<open>normalizeKey\<close> accepts a pair's key, and the pair it is stored as.\<close>

definition accepted :: "string \<times> string \<Rightarrow> bool" where
  "accepted kv = snd (normalizeKey (fst kv))"

definition canonical :: "string \<times> string \<Rightarrow> string \<times> string" where
  "canonical kv = (fst (normalizeKey (fst kv)), snd kv)"

text \<open>What one iteration of the loop does to the table under construction.\<close>

definition cell_step :: "string \<times> string \<Rightarrow> entries \<Rightarrow> entries" where
  "cell_step kv acc =
     (case kv of (k, v) \<Rightarrow>
        (case normalizeKey k of (nk, ok) \<Rightarrow> if ok then AList.update nk v acc else acc))"

text \<open>
  What purity asks of a parser, the parsers being parameters: run from any two stores on
  the same DSN, it leaves the tables that existed alone, returns a valid map with distinct
  keys, and both the error and the content of the map depend on the DSN only.
\<close>

definition pure_parser :: "'e parser \<Rightarrow> bool" where
  "pure_parser P =
     (\<forall>h h' dsn.
        (case P h dsn of (g, r, e) \<Rightarrow>
           (case P h' dsn of (g', r', e') \<Rightarrow>
              prefix h g \<and> valid_ref g r \<and> distinct (map fst (rangeMap g r)) \<and>
              e = e' \<and> map_of (rangeMap g r) = map_of (rangeMap g' r'))))"

section \<open>Spans, the tracer and the capturing transport\<close>

text \<open>
  Modelled from the spec: the operation types of a span are not part of the sources at hand.
  Section 3 gives the fixed vocabulary: connection-check, query, prepare, execute,
  transaction-begin, transaction-rollback, transaction-commit.  \<open>TOther\<close> is the type of a
  span that the application itself opens.
\<close>

datatype op_type =
  TConnectionCheck | TQuery | TPrepare | TExec | TBegin | TRollback | TCommit | TOther

text \<open>Go's \<^verbatim>\<open>error\<close>: \<open>None\<close> is nil, otherwise the message.\<close>

type_synonym error = "string option"

text \<open>
  Modelled from the spec: type \<^verbatim>\<open>tracer.Span\<close> is not part of the sources at hand.  Section 3
  gives a span an operation type, a resource name, a metadata mapping, a parent reference
  that is an identifier only, and a trace identifier; section 4.2 adds the optional error
  tag recorded at closing time.  Timestamps are left out.
\<close>

record span =
  OpType :: op_type
  Resource :: string
  Meta :: mapref
  SpanID :: nat
  TraceID :: nat
  ParentID :: "nat option"
  Status :: error

text \<open>
  Spans are objects handled through pointers, so they live in a store of their own,
  \<open>objs\<close>, a pointer being an index.  Beside the two stores the state holds the tracer's
  sink (\<open>buffer\<close>: the closed spans not flushed yet, in submission order), what the
  capturing transport received and has not handed out yet (\<open>transport\<close>), the next
  unused identifier, and a history \<open>handed\<close> of every value that \<open>Traces\<close> returned, which no
  operation reads.
\<close>

record world =
  tables :: mapheap
  objs :: "span list"
  buffer :: "nat list"
  transport :: "nat list list"
  handed :: "nat list list list"
  next_id :: nat

text \<open>
  What a \<^verbatim>\<open>context.Context\<close> carries here: the ambient span or none.
  \<^verbatim>\<open>context.Background()\<close> carries none.
\<close>

type_synonym Context = "nat option"

definition Background :: Context where
  "Background = None"

text \<open>
  Modelled from the spec: \<^verbatim>\<open>tracer.ContextWithSpan\<close> is not part of the sources at hand.
  Section 9: the ambient parent span travels in the call's context; the call returns a
  context that carries the given span.
\<close>

definition ContextWithSpan :: "Context \<Rightarrow> nat \<Rightarrow> Context" where
  "ContextWithSpan ctx s = Some s"

text \<open>A new table with the pairs of an existing one (none for the nil map).\<close>

definition copyMap :: "mapheap \<Rightarrow> mapref \<Rightarrow> mapheap \<times> mapref" where
  "copyMap h r = (h @ [rangeMap h r], MapAt (length h))"

text \<open>Go's \<^verbatim>\<open>delete(m, k)\<close>; it does nothing on the nil map.\<close>

definition deleteKey :: "mapheap \<Rightarrow> mapref \<Rightarrow> string \<Rightarrow> mapheap" where
  "deleteKey h r k = (case r of NilMap \<Rightarrow> h | MapAt a \<Rightarrow> h[a := AList.delete k (h ! a)])"

text \<open>
  Modelled from the spec: the Span Factory (section 4.2) is not part of the sources at hand.
  With an ambient span in the context the new span's parent reference is that span and it
  shares its trace identifier; otherwise it starts a new trace, named here by the span's
  own fresh identifier.  Its metadata begins as a copy of the base metadata.
\<close>

definition startSpan :: "world \<Rightarrow> op_type \<Rightarrow> string \<Rightarrow> mapref \<Rightarrow> Context \<Rightarrow> world \<times> nat" where
  "startSpan w ty res base ctx =
     (case copyMap (tables w) base of (h, m) \<Rightarrow>
        (w\<lparr>tables := h,
           objs := objs w @
             [\<lparr>OpType = ty, Resource = res, Meta = m, SpanID = next_id w,
               TraceID = (case ctx of None \<Rightarrow> next_id w | Some p \<Rightarrow> TraceID (objs w ! p)),
               ParentID = (case ctx of None \<Rightarrow> None | Some p \<Rightarrow> Some (SpanID (objs w ! p))),
               Status = None\<rparr>],
           next_id := Suc (next_id w)\<rparr>,
         length (objs w)))"

text \<open>
  Modelled from the spec: \<^verbatim>\<open>Span.SetMeta\<close> is not part of the sources at hand.  It adds one
  key to the span's metadata (section 4.2: callers may add operation-specific keys); a span
  whose metadata is still nil gets a table first.
\<close>

definition SetMeta :: "world \<Rightarrow> nat \<Rightarrow> string \<Rightarrow> string \<Rightarrow> world" where
  "SetMeta w s k v =
     (case Meta (objs w ! s) of
        NilMap \<Rightarrow>
          w\<lparr>tables := tables w @ [[(k, v)]],
            objs := (objs w)[s := (objs w ! s)\<lparr>Meta := MapAt (length (tables w))\<rparr>]\<rparr>
      | MapAt a \<Rightarrow> w\<lparr>tables := assign (tables w) a k v\<rparr>)"

text \<open>
  Modelled from the spec: closing a span is not part of the sources at hand.  Section 4.2:
  it records the optional error tag and submits the span to the sink.
\<close>

definition closeSpan :: "world \<Rightarrow> nat \<Rightarrow> error \<Rightarrow> world" where
  "closeSpan w s err =
     w\<lparr>objs := (objs w)[s := (objs w ! s)\<lparr>Status := err\<rparr>], buffer := buffer w @ [s]\<rparr>"

text \<open>
  Modelled from the spec: \<^verbatim>\<open>Tracer.FlushTraces\<close> and the capturing transport's \<^verbatim>\<open>Traces\<close>
  are not part of the sources at hand.  A trace is the set of spans sharing one trace
  identifier (glossary): flushing sorts the buffered spans into traces, each in submission
  order, hands them to the transport and empties the buffer; \<open>Traces\<close> returns what the
  transport captured and forgets it.
\<close>

fun add_to_trace :: "(nat \<Rightarrow> nat) \<Rightarrow> nat \<Rightarrow> nat list list \<Rightarrow> nat list list" where
  "add_to_trace tid s [] = [[s]]"
| "add_to_trace tid s (tr # trs) =
     (case tr of
        [] \<Rightarrow> tr # add_to_trace tid s trs
      | s' # _ \<Rightarrow> if tid s' = tid s then (tr @ [s]) # trs else tr # add_to_trace tid s trs)"

text \<open>
  Modelled from the spec: the grouping of the buffered spans by trace identifier, traces in
  the order of their first span.
\<close>

definition group_traces :: "span list \<Rightarrow> nat list \<Rightarrow> nat list list" where
  "group_traces os ss = fold (add_to_trace (\<lambda>s. TraceID (os ! s))) ss []"

text \<open>
  Modelled from the spec: \<^verbatim>\<open>Tracer.FlushTraces\<close>, which hands the grouped spans to the
  transport and empties the buffer.
\<close>

definition FlushTraces :: "world \<Rightarrow> world" where
  "FlushTraces w =
     w\<lparr>transport := transport w @ group_traces (objs w) (buffer w), buffer := []\<rparr>"

text \<open>
  Modelled from the spec: \<^verbatim>\<open>Traces\<close> of the capturing transport, which returns what was
  captured and forgets it.  \<open>handed\<close> only remembers what was returned.
\<close>

definition Traces :: "world \<Rightarrow> world \<times> nat list list" where
  "Traces w = (w\<lparr>transport := [], handed := handed w @ [transport w]\<rparr>, transport w)"

text \<open>
  Modelled from the spec: \<^verbatim>\<open>Tracer.NewRootSpan\<close> is not part of the sources at hand.  It opens
  a span without a parent, which starts a new trace and stays open; the name and the
  service it is given are not attributes of the specification's span.
\<close>

definition NewRootSpan :: "world \<Rightarrow> string \<Rightarrow> string \<Rightarrow> string \<Rightarrow> world \<times> nat" where
  "NewRootSpan w name service resource = startSpan w TOther resource NilMap None"

section \<open>The traced handle\<close>

text \<open>
  The struct \<^verbatim>\<open>DB\<close> of the harness: the traced handle it embeds is represented by the
  handle's Connection Descriptor; the tracer and the transport are those of the state.
\<close>

record DB =
  descriptor :: mapref
  Name :: string
  Service :: string

text \<open>
  Modelled from the spec: the Traced Statement is not part of the sources at hand.
  Section 4.3: it is bound to the handle's Connection Descriptor and to the text it was
  prepared with.
\<close>

record Stmt =
  stmt_query :: string
  stmt_descriptor :: mapref

text \<open>
  Modelled from the spec: the Traced Transaction is not part of the sources at hand.
  Section 4.3: it is bound to the handle's Connection Descriptor and to the ambient parent
  that was passed when it was begun.
\<close>

record Tx =
  tx_parent :: Context
  tx_descriptor :: mapref

text \<open>The rows object that a successful query returns; its content plays no role.\<close>

datatype Rows = Rows

text \<open>
  Modelled from the spec: the traced handle, statement and transaction (section 4.3) are
  not part of the sources at hand.  Every operation opens one span of its type through the
  Span Factory, with the Connection Descriptor's tags as base metadata and, for query,
  prepare and exec, the statement text under the statement-text key (\<^verbatim>\<open>sql.query\<close> in the
  harness); the error of the underlying driver call, given as \<open>err\<close>, is recorded on the span,
  the span is closed all the same, and the error is returned unchanged.
\<close>

definition traced_call ::
  "world \<Rightarrow> op_type \<Rightarrow> string \<Rightarrow> string option \<Rightarrow> mapref \<Rightarrow> Context \<Rightarrow> error \<Rightarrow> world" where
  "traced_call w ty res stmt base ctx err =
     (case startSpan w ty res base ctx of (w1, s) \<Rightarrow>
        closeSpan (case stmt of None \<Rightarrow> w1 | Some q \<Rightarrow> SetMeta w1 s ''sql.query'' q) s err)"

text \<open>
  The operations of section 4.3 follow.  The fixed labels are the ones the harness expects
  (Ping, Begin, Rollback, Commit).  As in Go's \<^verbatim>\<open>database/sql\<close>, a call that fails returns a
  nil handle (\<open>None\<close>) beside the error.
\<close>

text \<open>
  Modelled from the spec: the connection check of section 4.3, one span of type
  connection-check with the fixed label as resource and no metadata beyond the
  descriptor's tags.
\<close>

definition DB_Ping :: "DB \<Rightarrow> Context \<Rightarrow> error \<Rightarrow> world \<Rightarrow> world \<times> error" where
  "DB_Ping db ctx err w =
     (traced_call w TConnectionCheck ''Ping'' None (descriptor db) ctx err, err)"

text \<open>
  Modelled from the spec: the direct query of section 4.3, one span of type query with the
  statement text as resource and as statement-text tag.
\<close>

definition DB_Query ::
  "DB \<Rightarrow> Context \<Rightarrow> string \<Rightarrow> error \<Rightarrow> world \<Rightarrow> world \<times> Rows option \<times> error" where
  "DB_Query db ctx q err w =
     (traced_call w TQuery q (Some q) (descriptor db) ctx err,
      if err = None then Some Rows else None, err)"

text \<open>
  Modelled from the spec: prepare of section 4.3, one span of type prepare with the
  statement text as resource and tag; it returns a Traced Statement bound to the same
  descriptor.
\<close>

definition DB_Prepare ::
  "DB \<Rightarrow> Context \<Rightarrow> string \<Rightarrow> error \<Rightarrow> world \<Rightarrow> world \<times> Stmt option \<times> error" where
  "DB_Prepare db ctx q err w =
     (traced_call w TPrepare q (Some q) (descriptor db) ctx err,
      if err = None then Some \<lparr>stmt_query = q, stmt_descriptor = descriptor db\<rparr> else None, err)"

text \<open>
  Modelled from the spec: statement execution of section 4.3, one span of type exec whose
  resource and tag are the text the statement was prepared with, not the arguments.
\<close>

definition Stmt_Exec ::
  "Stmt \<Rightarrow> Context \<Rightarrow> string list \<Rightarrow> error \<Rightarrow> world \<Rightarrow> world \<times> error" where
  "Stmt_Exec stmt ctx args err w =
     (traced_call w TExec (stmt_query stmt) (Some (stmt_query stmt)) (stmt_descriptor stmt)
        ctx err, err)"

text \<open>
  Modelled from the spec: transaction begin of section 4.3, one span of type transaction-
  begin with the fixed label; the returned transaction remembers the ambient parent of the
  context.
\<close>

definition DB_BeginTx :: "DB \<Rightarrow> Context \<Rightarrow> error \<Rightarrow> world \<Rightarrow> world \<times> Tx option \<times> error" where
  "DB_BeginTx db ctx err w =
     (traced_call w TBegin ''Begin'' None (descriptor db) ctx err,
      if err = None then Some \<lparr>tx_parent = ctx, tx_descriptor = descriptor db\<rparr> else None, err)"

text \<open>
  Modelled from the spec: begin without a context, that is with the background context.
\<close>

definition DB_Begin :: "DB \<Rightarrow> error \<Rightarrow> world \<Rightarrow> world \<times> Tx option \<times> error" where
  "DB_Begin db err w = DB_BeginTx db Background err w"

text \<open>
  Modelled from the spec: rollback of section 4.3, one span with the fixed label, parented
  like the begin span.
\<close>

definition Tx_Rollback :: "Tx \<Rightarrow> error \<Rightarrow> world \<Rightarrow> world \<times> error" where
  "Tx_Rollback tx err w =
     (traced_call w TRollback ''Rollback'' None (tx_descriptor tx) (tx_parent tx) err, err)"

text \<open>
  Modelled from the spec: exec within a transaction of section 4.3, a span as in a direct
  exec but a child of the transaction's ambient parent; without such a parent the Span
  Factory takes the parent from the call's own context.
\<close>

definition Tx_ExecContext :: "Tx \<Rightarrow> Context \<Rightarrow> string \<Rightarrow> error \<Rightarrow> world \<Rightarrow> world \<times> error" where
  "Tx_ExecContext tx ctx q err w =
     (traced_call w TExec q (Some q) (tx_descriptor tx)
        (case tx_parent tx of None \<Rightarrow> ctx | Some p \<Rightarrow> Some p) err, err)"

text \<open>
  Modelled from the spec: commit of section 4.3, one span with the fixed label, parented
  like the begin span.
\<close>

definition Tx_Commit :: "Tx \<Rightarrow> error \<Rightarrow> world \<Rightarrow> world \<times> error" where
  "Tx_Commit tx err w =
     (traced_call w TCommit ''Commit'' None (tx_descriptor tx) (tx_parent tx) err, err)"

section \<open>The verification harness\<close>

text \<open>
  The second part of \<^verbatim>\<open>parse.go\<close>, to which the line numbers below refer.  The harness
  records failed assertions in \<^verbatim>\<open>testing.T\<close> and goes on; it stops only when Go panics,
  on an index out of range or on a call through a nil handle.
\<close>

datatype failure = NotNil | WrongLength nat nat | SpanMismatch

type_synonym T = "failure list"

datatype panic = IndexOutOfRange | NilDereference

text \<open>\<^verbatim>\<open>assert.Equal(nil, err)\<close> and \<^verbatim>\<open>assert.Len(xs, n)\<close>.\<close>

definition assert_Equal_nil :: "T \<Rightarrow> error \<Rightarrow> T" where
  "assert_Equal_nil t err = (if err = None then t else t @ [NotNil])"

definition assert_Len :: "T \<Rightarrow> 'a list \<Rightarrow> nat \<Rightarrow> T" where
  "assert_Len t xs n = (if length xs = n then t else t @ [WrongLength n (length xs)])"

text \<open>\<^verbatim>\<open>xs[i]\<close>, which panics out of range.\<close>

definition index :: "'a list \<Rightarrow> nat \<Rightarrow> panic + 'a" where
  "index xs i = (if i < length xs then Inr (xs ! i) else Inl IndexOutOfRange)"

text \<open>
  Modelled from the spec: \<^verbatim>\<open>tracer.CopySpan\<close> is not part of the sources at hand, and the
  specification only speaks of comparing against an expected template whose accumulated
  transient keys are cleared afterwards.  The copy is a new span object with the fields of
  the template.  \<open>share\<close> says whether the copy's metadata is the template's own table, so
  that keys set on the copy accumulate in the template, or a new table with the same
  pairs; the theorems below hold for both.
\<close>

definition CopySpan :: "bool \<Rightarrow> world \<Rightarrow> nat \<Rightarrow> world \<times> nat" where
  "CopySpan share w p =
     (if share then (w\<lparr>objs := objs w @ [objs w ! p]\<rparr>, length (objs w))
      else (case copyMap (tables w) (Meta (objs w ! p)) of (h, m) \<Rightarrow>
              (w\<lparr>tables := h, objs := objs w @ [(objs w ! p)\<lparr>Meta := m\<rparr>]\<rparr>, length (objs w))))"

text \<open>The assignment \<^verbatim>\<open>s.Resource = r\<close> through the pointer \<open>s\<close>.\<close>

definition set_Resource :: "world \<Rightarrow> nat \<Rightarrow> string \<Rightarrow> world" where
  "set_Resource w s r = w\<lparr>objs := (objs w)[s := (objs w ! s)\<lparr>Resource := r\<rparr>]\<rparr>"

text \<open>
  Modelled from the spec: \<^verbatim>\<open>tracer.CompareSpan\<close> is not part of the sources at hand.
  Section 4.4: the harness asserts that resource names and metadata match the expected
  template exactly.
\<close>

definition CompareSpan :: "T \<Rightarrow> world \<Rightarrow> nat \<Rightarrow> nat \<Rightarrow> T" where
  "CompareSpan t w expected actual =
     (if Resource (objs w ! expected) = Resource (objs w ! actual) \<and>
         set (rangeMap (tables w) (Meta (objs w ! expected))) =
         set (rangeMap (tables w) (Meta (objs w ! actual)))
      then t else t @ [SpanMismatch])"

text \<open>
  Sequencing: a panic ends the run.  \<open>deref\<close> is a call through a handle that may be nil.
\<close>

definition and_then :: "panic + 'a \<Rightarrow> ('a \<Rightarrow> panic + 'b) \<Rightarrow> panic + 'b" where
  "and_then r f = (case r of Inl p \<Rightarrow> Inl p | Inr x \<Rightarrow> f x)"

definition deref :: "'a option \<Rightarrow> panic + 'a" where
  "deref x = (case x of None \<Rightarrow> Inl NilDereference | Some y \<Rightarrow> Inr y)"

text \<open>
  The lines that follow every traced call of the harness (75 to 79, 91 to 95, 119 to 123,
  136 to 140, 158 to 162, 173 to 177, 196 to 200): flush, read the captured traces, assert
  that there is one trace, take it, assert that it has \<open>n\<close> spans.
\<close>

definition capture :: "nat \<Rightarrow> T \<times> world \<Rightarrow> panic + (T \<times> world \<times> nat list)" where
  "capture n tw =
     (let (t, w) = tw;
          (w, traces) = Traces (FlushTraces w);
          t = assert_Len t traces 1
      in and_then (index traces 0) (\<lambda>spans. Inr (assert_Len t spans n, w, spans)))"

text \<open>
  The check of a span without statement text (lines 82 to 84, 165 to 167, 179 to 181, 210 to
  212): copy the template, set the expected resource, compare.
\<close>

definition expect_resource :: "bool \<Rightarrow> nat \<Rightarrow> string \<Rightarrow> nat \<Rightarrow> T \<times> world \<Rightarrow> T \<times> world" where
  "expect_resource share expectedSpan label actualSpan tw =
     (let (t, w) = tw;
          (w, xSpan) = CopySpan share w expectedSpan;
          w = set_Resource w xSpan label;
          t = CompareSpan t w xSpan actualSpan
      in (t, w))"

text \<open>
  The check of a span with statement text (lines 98 to 102, 126 to 130, 143 to 147, 203 to
  207): copy the template, set the expected resource and the statement-text tag, compare,
  then delete the tag from the template's metadata.
\<close>

definition expect_query :: "bool \<Rightarrow> nat \<Rightarrow> string \<Rightarrow> nat \<Rightarrow> T \<times> world \<Rightarrow> T \<times> world" where
  "expect_query share expectedSpan query actualSpan tw =
     (let (t, w) = tw;
          (w, xSpan) = CopySpan share w expectedSpan;
          w = set_Resource w xSpan query;
          w = SetMeta w xSpan ''sql.query'' query;
          t = CompareSpan t w xSpan actualSpan;
          w = w\<lparr>tables := deleteKey (tables w) (Meta (objs w ! expectedSpan)) ''sql.query''\<rparr>
      in (t, w))"

text \<open>
  \<^verbatim>\<open>strings.ToLower\<close>, on ASCII letters.  The harness only compares its result with
  \<^verbatim>\<open>postgres\<close> and \<^verbatim>\<open>mysql\<close>; outside ASCII only U+0130 and U+212A are lowered to
  ASCII letters, to i and k, which occur in neither word.
\<close>

definition ToLower :: "string \<Rightarrow> string" where
  "ToLower s =
     map (\<lambda>c. if 65 \<le> (of_char c :: nat) \<and> (of_char c :: nat) \<le> 90
               then char_of ((of_char c :: nat) + 32) else c) s"

text \<open>
  The three tests.  \<open>drv i\<close> is the error that the underlying driver returns to the
  \<open>i\<close>-th traced call of the script, \<open>None\<close> for success.  The deferred \<^verbatim>\<open>rows.Close()\<close>
  of \<open>testDB\<close> runs last, and panics when the query returned no rows object.  In
  \<open>testStatement\<close> the two calls of \<^verbatim>\<open>fmt.Sprintf\<close> are written as the strings they
  return.
\<close>

definition testDB ::
  "bool \<Rightarrow> (nat \<Rightarrow> error) \<Rightarrow> DB \<Rightarrow> nat \<Rightarrow> T \<times> world \<Rightarrow> panic + (T \<times> world)" where
  "testDB share drv db expectedSpan tw =
     (let (t, w) = tw;
          query = ''select id, name, population from city limit 5'';
          (w, err) = DB_Ping db Background (drv 0) w;
          t = assert_Equal_nil t err
      in and_then (capture 1 (t, w)) (\<lambda>(t, w, spans).
         and_then (index spans 0) (\<lambda>actualSpan.
           (let (t, w) = expect_resource share expectedSpan ''Ping'' actualSpan (t, w);
                (w, rows, err) = DB_Query db Background query (drv 1) w;
                t = assert_Equal_nil t err
            in and_then (capture 1 (t, w)) (\<lambda>(t, w, spans).
               and_then (index spans 0) (\<lambda>actualSpan.
                 (let (t, w) = expect_query share expectedSpan query actualSpan (t, w)
                  in and_then (deref rows) (\<lambda>r. Inr (t, w)))))))))"

definition testStatement ::
  "bool \<Rightarrow> (nat \<Rightarrow> error) \<Rightarrow> DB \<Rightarrow> nat \<Rightarrow> T \<times> world \<Rightarrow> panic + (T \<times> world)" where
  "testStatement share drv db expectedSpan tw =
     (let (t, w) = tw;
          query =
            (if ToLower (Name db) = ''postgres'' then ''INSERT INTO city(name) VALUES($1)''
             else if ToLower (Name db) = ''mysql'' then ''INSERT INTO city(name) VALUES(?)''
             else ''INSERT INTO city(name) VALUES(%s)'');
          (w, stmt, err) = DB_Prepare db Background query (drv 2) w;
          t = assert_Equal_nil t err
      in and_then (capture 1 (t, w)) (\<lambda>(t, w, spans).
         and_then (index spans 0) (\<lambda>actualSpan.
           (let (t, w) = expect_query share expectedSpan query actualSpan (t, w)
            in and_then (deref stmt) (\<lambda>stmt.
               (let (w, err2) = Stmt_Exec stmt Background [''New York''] (drv 3) w;
                    t = assert_Equal_nil t err2
                in and_then (capture 1 (t, w)) (\<lambda>(t, w, spans).
                   and_then (index spans 0) (\<lambda>actualSpan.
                     Inr (expect_query share expectedSpan query actualSpan (t, w))))))))))"

definition testTransaction ::
  "bool \<Rightarrow> (nat \<Rightarrow> error) \<Rightarrow> DB \<Rightarrow> nat \<Rightarrow> T \<times> world \<Rightarrow> panic + (T \<times> world)" where
  "testTransaction share drv db expectedSpan tw =
     (let (t, w) = tw;
          query = ''INSERT INTO city(name) VALUES('New York')'';
          (w, tx, err) = DB_Begin db (drv 4) w;
          t = assert_Equal_nil t err
      in and_then (capture 1 (t, w)) (\<lambda>(t, w, spans).
         and_then (index spans 0) (\<lambda>actualSpan.
           (let (t, w) = expect_resource share expectedSpan ''Begin'' actualSpan (t, w)
            in and_then (deref tx) (\<lambda>tx.
               (let (w, err) = Tx_Rollback tx (drv 5) w;
                    t = assert_Equal_nil t err
                in and_then (capture 1 (t, w)) (\<lambda>(t, w, spans).
                   and_then (index spans 0) (\<lambda>actualSpan.
                     (let (t, w) = expect_resource share expectedSpan ''Rollback'' actualSpan (t, w);
                          (w, parentSpan) = NewRootSpan w ''test.parent'' ''test'' ''parent'';
                          ctx = ContextWithSpan Background parentSpan;
                          (w, tx, err) = DB_BeginTx db ctx (drv 6) w;
                          t = assert_Equal_nil t err
                      in and_then (deref tx) (\<lambda>tx.
                         (let (w, err) = Tx_ExecContext tx ctx query (drv 7) w;
                              t = assert_Equal_nil t err;
                              (w, err) = Tx_Commit tx (drv 8) w;
                              t = assert_Equal_nil t err
                          in and_then (capture 3 (t, w)) (\<lambda>(t, w, spans).
                             and_then (index spans 1) (\<lambda>actualSpan.
                               (let (t, w) = expect_query share expectedSpan query actualSpan (t, w)
                                in and_then (index spans 2) (\<lambda>actualSpan.
                                   Inr (expect_resource share expectedSpan ''Commit'' actualSpan
                                          (t, w)))))))))))))))))"

definition AllSQLTests ::
  "bool \<Rightarrow> (nat \<Rightarrow> error) \<Rightarrow> DB \<Rightarrow> nat \<Rightarrow> T \<times> world \<Rightarrow> panic + (T \<times> world)" where
  "AllSQLTests share drv db expectedSpan tw =
     and_then (testDB share drv db expectedSpan tw) (\<lambda>tw.
     and_then (testStatement share drv db expectedSpan tw) (\<lambda>tw.
       testTransaction share drv db expectedSpan tw))"

section \<open>Observations used in the statements\<close>

text \<open>
  The spans that a call submitted: those in the tracer's buffer after the call that were
  not there before it, as they are in the store after the call.
\<close>

definition produced :: "world \<Rightarrow> world \<Rightarrow> span list" where
  "produced w w' = map (\<lambda>s. objs w' ! s) (drop (length (buffer w)) (buffer w'))"

text \<open>The failed \<^verbatim>\<open>assert.Len\<close> assertions among the recorded failures.\<close>

fun is_length_failure :: "failure \<Rightarrow> bool" where
  "is_length_failure (WrongLength n m) = True"
| "is_length_failure NotNil = False"
| "is_length_failure SpanMismatch = False"

definition length_failures :: "T \<Rightarrow> T" where
  "length_failures t = filter is_length_failure t"

text \<open>
  The expected template \<open>p\<close> matches the handle: it is an allocated span object, its
  metadata and the handle's Connection Descriptor are valid maps with the same pairs, and
  the statement-text key is not among them.
\<close>

definition template_ok :: "nat \<Rightarrow> DB \<Rightarrow> world \<Rightarrow> bool" where
  "template_ok p db w =
     (p < length (objs w) \<and> valid_ref (tables w) (Meta (objs w ! p)) \<and>
      valid_ref (tables w) (descriptor db) \<and>
      set (rangeMap (tables w) (Meta (objs w ! p))) = set (rangeMap (tables w) (descriptor db)) \<and>
      ''sql.query'' \<notin> fst ` set (rangeMap (tables w) (Meta (objs w ! p))))"

text \<open>
  The span object \<open>a\<close> is what the harness expects of a call with resource \<open>r\<close> and
  statement text \<open>stmt\<close>: it has that resource, and its metadata is a table of its own
  with the descriptor's pairs and, for \<open>stmt = Some q\<close>, the statement-text tag \<open>q\<close>.
\<close>

definition span_matches :: "nat \<Rightarrow> DB \<Rightarrow> world \<Rightarrow> nat \<Rightarrow> string \<Rightarrow> string option \<Rightarrow> bool" where
  "span_matches p db w a r stmt =
     (a < length (objs w) \<and> Resource (objs w ! a) = r \<and>
      valid_ref (tables w) (Meta (objs w ! a)) \<and> Meta (objs w ! a) \<noteq> Meta (objs w ! p) \<and>
      set (rangeMap (tables w) (Meta (objs w ! a))) =
        (case stmt of
           None \<Rightarrow> set (rangeMap (tables w) (descriptor db))
         | Some q \<Rightarrow> insert (''sql.query'', q) (set (rangeMap (tables w) (descriptor db)))))"

text \<open>
  A small state for running the definitions: the Connection Descriptor of the scenario of
  section 8 at address 0, the expected template (span object 0) with an equal table of its
  own at address 1, nothing buffered or captured.
\<close>

definition example_world :: world where
  "example_world =
     \<lparr>tables =
        [[(''db.name'', ''city''), (''db.user'', ''reader''), (''out.host'', ''localhost''),
          (''out.port'', ''5432'')],
         [(''db.name'', ''city''), (''db.user'', ''reader''), (''out.host'', ''localhost''),
          (''out.port'', ''5432'')]],
      objs = [\<lparr>OpType = TOther, Resource = [], Meta = MapAt 1, SpanID = 0, TraceID = 0,
               ParentID = None, Status = None\<rparr>],
      buffer = [], transport = [], handed = [], next_id = 1\<rparr>"

definition example_db :: DB where
  "example_db = \<lparr>descriptor = MapAt 0, Name = ''Postgres'', Service = ''postgres-test''\<rparr>"

text \<open>The same state once the application has opened a span of its own, span object 1.\<close>

definition example_traced_world :: world where
  "example_traced_world = fst (NewRootSpan example_world ''test.parent'' ''test'' ''parent'')"

section \<open>The loop of normalize\<close>

lemma normalize_step_last:
  "normalize_step (length h) kv (h @ [acc]) = h @ [cell_step kv acc]"
  by (simp add: normalize_step_def cell_step_def assign_def split: prod.splits)

lemma fold_normalize_step:
  "fold (normalize_step (length h)) xs (h @ [acc]) = h @ [fold cell_step xs acc]"
  by (induction xs arbitrary: acc) (simp_all add: normalize_step_last)

lemma rangeMap_append:
  "valid_ref h r \<Longrightarrow> rangeMap (h @ g) r = rangeMap h r"
  by (cases r) (simp_all add: rangeMap_def valid_ref_def nth_append)

lemma normalize_eq:
  "valid_ref h meta \<Longrightarrow>
   normalize_meta h meta = (h @ [fold cell_step (rangeMap h meta) []], MapAt (length h))"
  by (simp add: normalize_meta_def makeMap_def rangeMap_append fold_normalize_step)

lemma accepted_cases:
  "snd (normalizeKey k) \<Longrightarrow>
   k = ''user'' \<or> k = ''application_name'' \<or> k = ''dbname'' \<or> k = ''host'' \<or> k = ''port''"
  unfolding normalizeKey_def by (simp split: if_splits)

lemma normalizeKey_raw_of:
  assumes "normalizeKey k = (nk, True)" shows "raw_of nk = Some k"
proof -
  from assms have "snd (normalizeKey k)" by simp
  then consider "k = ''user''" | "k = ''application_name''" | "k = ''dbname''" | "k = ''host''" | "k = ''port''"
    using accepted_cases by blast
  then show ?thesis
  proof cases
    case 1 with assms show ?thesis by (auto simp: normalizeKey_def raw_of_def TagKeyMapping_def)
  next
    case 2 with assms show ?thesis by (auto simp: normalizeKey_def raw_of_def TagKeyMapping_def)
  next
    case 3 with assms show ?thesis by (auto simp: normalizeKey_def raw_of_def TagKeyMapping_def)
  next
    case 4 with assms show ?thesis by (auto simp: normalizeKey_def raw_of_def TagKeyMapping_def)
  next
    case 5 with assms show ?thesis by (auto simp: normalizeKey_def raw_of_def TagKeyMapping_def)
  qed
qed

lemma normalizeKey_inj:
  "normalizeKey k = (nk, True) \<Longrightarrow> normalizeKey k' = (nk, True) \<Longrightarrow> k = k'"
  by (metis normalizeKey_raw_of option.inject)

lemma normalizeKey_table:
  "normalizeKey k = (nk, True) \<longleftrightarrow> (k, nk) \<in> set TagKeyMapping"
proof
  assume a: "normalizeKey k = (nk, True)"
  then have "raw_of nk = Some k" by (rule normalizeKey_raw_of)
  then have "(nk, k) \<in> set (map (\<lambda>(k, nk). (nk, k)) TagKeyMapping)"
    unfolding raw_of_def by (rule map_of_SomeD)
  then show "(k, nk) \<in> set TagKeyMapping" by auto
next
  assume "(k, nk) \<in> set TagKeyMapping"
  then show "normalizeKey k = (nk, True)"
    by (auto simp: TagKeyMapping_def normalizeKey_def)
qed

lemma cell_step_keys:
  "distinct (map fst acc) \<Longrightarrow> distinct (map fst (cell_step kv acc))"
  by (auto simp: cell_step_def AList.distinct_update split: prod.splits)

lemma fold_cell_step_distinct:
  "distinct (map fst acc) \<Longrightarrow> distinct (map fst (fold cell_step xs acc))"
  by (induction xs arbitrary: acc) (simp_all add: cell_step_keys)

lemma map_of_cell_step:
  "map_of (cell_step (k, v) acc) nk =
     (if normalizeKey k = (nk, True) then Some v else map_of acc nk)"
  by (auto simp: cell_step_def AList.update_conv' split: prod.splits)

lemma fold_cell_step_Some:
  "distinct (map fst xs) \<Longrightarrow>
   map_of (fold cell_step xs acc) nk = Some v \<longleftrightarrow>
     (\<exists>k. (k, v) \<in> set xs \<and> normalizeKey k = (nk, True)) \<or>
     (map_of acc nk = Some v \<and> (\<forall>k w. (k, w) \<in> set xs \<longrightarrow> normalizeKey k \<noteq> (nk, True)))"
proof (induction xs arbitrary: acc)
  case Nil
  then show ?case by simp
next
  case (Cons x xs)
  obtain k0 v0 where x: "x = (k0, v0)" by (cases x)
  from Cons.prems have d: "distinct (map fst xs)" and nin: "k0 \<notin> fst ` set xs"
    by (auto simp: x)
  have later: "normalizeKey k \<noteq> (nk, True)"
    if "normalizeKey k0 = (nk, True)" "(k, w) \<in> set xs" for k w
  proof
    assume "normalizeKey k = (nk, True)"
    with that(1) have "k = k0" by (metis normalizeKey_inj)
    with that(2) nin show False by force
  qed
  show ?case
    unfolding x fold_simps Cons.IH [OF d] map_of_cell_step
    using later by auto
qed

lemma normalized_entries:
  assumes "distinct (map fst xs)"
  shows "set (fold cell_step xs []) = canonical ` set (filter accepted xs)"
proof -
  let ?e = "fold cell_step xs []"
  have d: "distinct (map fst ?e)" by (simp add: fold_cell_step_distinct)
  have "(nk, v) \<in> set ?e \<longleftrightarrow> (nk, v) \<in> canonical ` set (filter accepted xs)" for nk v
  proof -
    have "(nk, v) \<in> set ?e \<longleftrightarrow> map_of ?e nk = Some v"
      using d by simp
    also have "\<dots> \<longleftrightarrow> (\<exists>k. (k, v) \<in> set xs \<and> normalizeKey k = (nk, True))"
      using fold_cell_step_Some [OF assms, of "[]" nk v] by simp
    also have "\<dots> \<longleftrightarrow> (nk, v) \<in> canonical ` set (filter accepted xs)"
      by (force simp: canonical_def accepted_def image_iff prod_eq_iff)
    finally show ?thesis .
  qed
  then show ?thesis by (auto simp del: set_filter)
qed

lemma canonical_inj:
  "distinct (map fst xs) \<Longrightarrow> inj_on canonical (set (filter accepted xs))"
proof (rule inj_onI)
  fix p q
  assume d: "distinct (map fst xs)"
    and p: "p \<in> set (filter accepted xs)" and q: "q \<in> set (filter accepted xs)"
    and eq: "canonical p = canonical q"
  from p q have "normalizeKey (fst p) = (fst (normalizeKey (fst p)), True)"
    "normalizeKey (fst q) = (fst (normalizeKey (fst q)), True)"
    by (simp_all add: accepted_def prod_eq_iff)
  with eq have "fst p = fst q"
    by (metis canonical_def normalizeKey_inj fst_conv)
  moreover from eq have "snd p = snd q" by (simp add: canonical_def)
  ultimately show "p = q" by (simp add: prod_eq_iff)
qed

lemma normalized_length:
  assumes "distinct (map fst xs)"
  shows "length (fold cell_step xs []) = length (filter accepted xs)"
proof -
  let ?e = "fold cell_step xs []"
  have "distinct (map fst ?e)" by (simp add: fold_cell_step_distinct)
  then have "distinct ?e" by (simp add: distinct_map)
  then have "length ?e = card (set ?e)" by (simp add: distinct_card)
  also have "\<dots> = card (canonical ` set (filter accepted xs))"
    by (simp only: normalized_entries [OF assms])
  also have "\<dots> = card (set (filter accepted xs))"
    by (rule card_image) (rule canonical_inj [OF assms])
  also have "\<dots> = length (filter accepted xs)"
  proof -
    from assms have "distinct xs" by (simp add: distinct_map)
    then have "distinct (filter accepted xs)" by simp
    then show ?thesis by (rule distinct_card)
  qed
  finally show ?thesis .
qed

lemma option_eqI:
  "(\<And>v. a = Some v \<longleftrightarrow> b = Some v) \<Longrightarrow> a = b"
  by (cases a; cases b) auto

lemma fold_cell_step_content:
  assumes "distinct (map fst xs)"
  shows "map_of (fold cell_step xs []) nk = Some v \<longleftrightarrow>
           (\<exists>k. map_of xs k = Some v \<and> normalizeKey k = (nk, True))"
  using fold_cell_step_Some [OF assms, of "[]" nk v] assms by auto

lemma fold_cell_step_order:
  assumes "distinct (map fst xs)" "distinct (map fst ys)" "map_of xs = map_of ys"
  shows "map_of (fold cell_step xs []) = map_of (fold cell_step ys [])"
proof
  fix nk
  show "map_of (fold cell_step xs []) nk = map_of (fold cell_step ys []) nk"
    by (rule option_eqI) (simp add: fold_cell_step_content assms)
qed

lemma rangeMap_last: "rangeMap (h @ [e]) (MapAt (length h)) = e"
  by (simp add: rangeMap_def)

lemma normalize_total:
  "\<exists>e. normalize_meta h meta = (h @ [e], MapAt (length h))"
proof -
  have "fold (normalize_step (length h)) xs (h @ [[]]) = h @ [fold cell_step xs []]" for xs
    by (rule fold_normalize_step)
  then show ?thesis by (simp add: normalize_meta_def makeMap_def)
qed

text \<open>
  Claim C1.  For every raw attribute map (a valid reference to a table with distinct keys),
  \<open>normalize\<close> returns a new table whose pairs are exactly the pairs \<open>(nk, v)\<close> such that
  the Tag Key Mapping table sends some raw key \<open>k\<close> to \<open>nk\<close> and the input binds \<open>k\<close> to
  \<open>v\<close>: user to db.user, application_name to db.application, dbname to db.name, host to
  out.host, port to out.port, each with the raw value unchanged, and nothing else.
\<close>

theorem normalize_exact_keys:
  assumes "valid_ref h meta" and "distinct (map fst (rangeMap h meta))"
  shows "\<exists>e. normalize_meta h meta = (h @ [e], MapAt (length h)) \<and> distinct (map fst e) \<and>
             set e = {(nk, v). \<exists>k. (k, nk) \<in> set TagKeyMapping \<and> (k, v) \<in> set (rangeMap h meta)}"
proof -
  let ?xs = "rangeMap h meta"
  let ?e = "fold cell_step ?xs []"
  have "set ?e = {(nk, v). \<exists>k. (k, nk) \<in> set TagKeyMapping \<and> (k, v) \<in> set ?xs}"
    unfolding normalized_entries [OF assms(2)]
    by (force simp: canonical_def accepted_def image_iff prod_eq_iff normalizeKey_table [symmetric])
  moreover have "distinct (map fst ?e)" by (simp add: fold_cell_step_distinct)
  ultimately show ?thesis using normalize_eq [OF assms(1)] by blast
qed

theorem normalize_exact_keys_witness:
  "valid_ref [[(''dbname'', ''city''), (''sslmode'', ''disable''), (''user'', ''reader'')]] (MapAt 0) \<and>
   distinct (map fst (rangeMap [[(''dbname'', ''city''), (''sslmode'', ''disable''), (''user'', ''reader'')]] (MapAt 0))) \<and>
   normalize_meta [[(''dbname'', ''city''), (''sslmode'', ''disable''), (''user'', ''reader'')]] (MapAt 0) =
     ([[(''dbname'', ''city''), (''sslmode'', ''disable''), (''user'', ''reader'')],
       [(''db.name'', ''city''), (''db.user'', ''reader'')]], MapAt 1) \<and>
   set [(''db.name'', ''city''), (''db.user'', ''reader'')] =
     {(nk, v). \<exists>k. (k, nk) \<in> set TagKeyMapping \<and>
        (k, v) \<in> set (rangeMap [[(''dbname'', ''city''), (''sslmode'', ''disable''), (''user'', ''reader'')]] (MapAt 0))}"
proof -
  let ?h = "[[(''dbname'', ''city''), (''sslmode'', ''disable''), (''user'', ''reader'')]]"
  have v: "valid_ref ?h (MapAt 0)" by (simp add: valid_ref_def)
  have d: "distinct (map fst (rangeMap ?h (MapAt 0)))" by (simp add: rangeMap_def)
  have n: "normalize_meta ?h (MapAt 0) = (?h @ [[(''db.name'', ''city''), (''db.user'', ''reader'')]], MapAt 1)"
    by (simp add: normalize_meta_def makeMap_def rangeMap_def normalize_step_def normalizeKey_def assign_def)
  from normalize_exact_keys [OF v d] n v d show ?thesis by auto
qed

text \<open>
  Claim C4.  For a driver identifier other than \<^verbatim>\<open>*pq.Driver\<close> and
  \<^verbatim>\<open>*mysql.MySQLDriver\<close> and any DSN, \<open>parseDSN\<close> calls no parser and returns a new
  empty map together with the nil error.
\<close>

theorem parseDSN_unsupported_driver:
  assumes "driverType \<noteq> ''*pq.Driver''" and "driverType \<noteq> ''*mysql.MySQLDriver''"
  shows "parseDSN Postgres MySQL h driverType dsn = (h @ [[]], MapAt (length h), None) \<and>
         rangeMap (h @ [[]]) (MapAt (length h)) = []"
proof -
  have "normalize_meta h NilMap = (h @ [[]], MapAt (length h))"
    by (simp add: normalize_eq valid_ref_def rangeMap_def)
  with assms show ?thesis by (simp add: parseDSN_def rangeMap_last)
qed

theorem parseDSN_unsupported_driver_witness:
  "''sqlite3'' \<noteq> ''*pq.Driver'' \<and> ''sqlite3'' \<noteq> ''*mysql.MySQLDriver'' \<and>
   parseDSN (\<lambda>h dsn. (h, NilMap, Some ''unused'')) (\<lambda>h dsn. (h, NilMap, Some ''unused''))
     [[(''user'', ''reader'')]] ''sqlite3'' ''file:city.db'' =
       ([[(''user'', ''reader'')], []], MapAt 1, None) \<and>
   rangeMap [[(''user'', ''reader'')], []] (MapAt 1) = []"
proof -
  have a: "''sqlite3'' \<noteq> ''*pq.Driver''" and b: "''sqlite3'' \<noteq> ''*mysql.MySQLDriver''"
    by simp_all
  from parseDSN_unsupported_driver [OF a b, of "\<lambda>h dsn. (h, NilMap, Some ''unused'')"
      "\<lambda>h dsn. (h, NilMap, Some ''unused'')" "[[(''user'', ''reader'')]]" "''file:city.db''"]
  show ?thesis using a b by simp
qed

text \<open>
  Claim C10.  Whatever the driver identifier and the DSN, the map \<open>parseDSN\<close> returns is
  not nil: it is the result of \<open>normalize\<close> on the map the parser returned (on nil for an
  unsupported driver), also when the parser returned an error, which is passed on
  unchanged.  The map is new: its address is not allocated in the store the parser left,
  and the tables of that store are the same afterwards.
\<close>

theorem parseDSN_map_never_nil:
  assumes "parseDSN Postgres MySQL h driverType dsn = (h', m, err)"
  shows "m \<noteq> NilMap \<and> valid_ref h' m \<and>
         (\<exists>h1 meta.
            (if driverType = ''*pq.Driver'' then Postgres h dsn
             else if driverType = ''*mysql.MySQLDriver'' then MySQL h dsn
             else (h, NilMap, None)) = (h1, meta, err) \<and>
            normalize_meta h1 meta = (h', m) \<and> m = MapAt (length h1) \<and> \<not> valid_ref h1 m \<and>
            length h' = Suc (length h1) \<and> take (length h1) h' = h1)"
proof -
  obtain h1 meta err1 where p:
    "(if driverType = ''*pq.Driver'' then Postgres h dsn
      else if driverType = ''*mysql.MySQLDriver'' then MySQL h dsn
      else (h, NilMap, None)) = (h1, meta, err1)"
    by (metis prod_cases3)
  obtain e where n: "normalize_meta h1 meta = (h1 @ [e], MapAt (length h1))"
    using normalize_total by blast
  from p n have "parseDSN Postgres MySQL h driverType dsn = (h1 @ [e], MapAt (length h1), err1)"
    unfolding parseDSN_def by simp
  with assms have "h' = h1 @ [e]" "m = MapAt (length h1)" "err = err1" by simp_all
  with p n show ?thesis by (simp add: valid_ref_def)
qed

theorem parseDSN_map_never_nil_witness:
  "parseDSN (\<lambda>h dsn. (h @ [[(''user'', ''reader''), (''sslmode'', dsn)]], MapAt (length h), Some ''missing \"=\"''))
      (\<lambda>h dsn. (h, NilMap, None)) [] ''*pq.Driver'' ''user=reader sslmode''
     = ([[(''user'', ''reader''), (''sslmode'', ''user=reader sslmode'')], [(''db.user'', ''reader'')]],
        MapAt 1, Some ''missing \"=\"'') \<and>
   MapAt 1 \<noteq> NilMap \<and>
   valid_ref [[(''user'', ''reader''), (''sslmode'', ''user=reader sslmode'')], [(''db.user'', ''reader'')]] (MapAt 1) \<and>
   \<not> valid_ref [[(''user'', ''reader''), (''sslmode'', ''user=reader sslmode'')]] (MapAt 1)"
proof -
  let ?P = "\<lambda>h dsn. (h @ [[(''user'', ''reader''), (''sslmode'', dsn)]], MapAt (length h), Some ''missing \"=\"'')"
  let ?M = "\<lambda>(h::mapheap) (dsn::string). (h, NilMap, None :: string option)"
  have r: "parseDSN ?P ?M [] ''*pq.Driver'' ''user=reader sslmode''
     = ([[(''user'', ''reader''), (''sslmode'', ''user=reader sslmode'')], [(''db.user'', ''reader'')]],
        MapAt 1, Some ''missing \"=\"'')"
    by (simp add: parseDSN_def normalize_meta_def makeMap_def rangeMap_def normalize_step_def
        normalizeKey_def assign_def)
  from parseDSN_map_never_nil [OF r] r show ?thesis by (simp add: valid_ref_def)
qed

lemma normalize_frame:
  assumes "valid_ref h meta"
  obtains e where "normalize_meta h meta = (h @ [e], MapAt (length h))"
    and "e = fold cell_step (rangeMap h meta) []"
  using normalize_eq [OF assms] by blast

lemma normalize_calls_agree:
  assumes "valid_ref h meta" "valid_ref h' meta'"
    and "distinct (map fst (rangeMap h meta))" "distinct (map fst (rangeMap h' meta'))"
    and "map_of (rangeMap h meta) = map_of (rangeMap h' meta')"
  shows "(case normalize_meta h meta of (g, m) \<Rightarrow>
           (case normalize_meta h' meta' of (g', m') \<Rightarrow>
              prefix h g \<and> rangeMap g meta = rangeMap h meta \<and>
              map_of (rangeMap g m) = map_of (rangeMap g' m')))"
proof -
  have "map_of (fold cell_step (rangeMap h meta) []) = map_of (fold cell_step (rangeMap h' meta') [])"
    using assms(3-5) by (rule fold_cell_step_order)
  then show ?thesis
    using assms(1,2) by (simp add: normalize_eq rangeMap_last rangeMap_append)
qed

lemma pure_parserD:
  assumes "pure_parser P" "P h dsn = (g, r, e)" "P h' dsn = (g', r', e')"
  shows "prefix h g" "valid_ref g r" "distinct (map fst (rangeMap g r))" "e = e'"
    "map_of (rangeMap g r) = map_of (rangeMap g' r')"
proof -
  from assms(1) have
    "case P h dsn of (g, r, e) \<Rightarrow>
       (case P h' dsn of (g', r', e') \<Rightarrow>
          prefix h g \<and> valid_ref g r \<and> distinct (map fst (rangeMap g r)) \<and>
          e = e' \<and> map_of (rangeMap g r) = map_of (rangeMap g' r'))"
    unfolding pure_parser_def by simp
  with assms(2,3) show "prefix h g" "valid_ref g r" "distinct (map fst (rangeMap g r))" "e = e'"
    "map_of (rangeMap g r) = map_of (rangeMap g' r')"
    by simp_all
qed

lemma parse_then_normalize_agree:
  assumes "pure_parser P"
  shows "(case (case P h dsn of (h1, meta, err) \<Rightarrow>
                 (case normalize_meta h1 meta of (h2, m) \<Rightarrow> (h2, m, err))) of (g, m, err) \<Rightarrow>
           (case (case P h' dsn of (h1, meta, err) \<Rightarrow>
                 (case normalize_meta h1 meta of (h2, m) \<Rightarrow> (h2, m, err))) of (g', m', err') \<Rightarrow>
              prefix h g \<and> err = err' \<and> map_of (rangeMap g m) = map_of (rangeMap g' m')))"
proof -
  obtain g r e where a: "P h dsn = (g, r, e)" by (metis prod_cases3)
  obtain g' r' e' where b: "P h' dsn = (g', r', e')" by (metis prod_cases3)
  note ab = pure_parserD [OF assms a b]
  note ba = pure_parserD [OF assms b a]
  have "prefix h (g @ [fold cell_step (rangeMap g r) []])"
    using ab(1) by (rule prefix_prefix)
  moreover have "map_of (fold cell_step (rangeMap g r) []) = map_of (fold cell_step (rangeMap g' r') [])"
    using ab(3) ba(3) ab(5) by (rule fold_cell_step_order)
  ultimately show ?thesis
    using ab(2,4) ba(2) by (simp add: a b normalize_eq rangeMap_last)
qed

lemma parseDSN_pq:
  "parseDSN P M h ''*pq.Driver'' dsn =
     (case P h dsn of (h1, meta, err) \<Rightarrow>
        (case normalize_meta h1 meta of (h2, m) \<Rightarrow> (h2, m, err)))"
  by (simp add: parseDSN_def)

lemma parseDSN_mysql:
  "parseDSN P M h ''*mysql.MySQLDriver'' dsn =
     (case M h dsn of (h1, meta, err) \<Rightarrow>
        (case normalize_meta h1 meta of (h2, m) \<Rightarrow> (h2, m, err)))"
  by (simp add: parseDSN_def)

text \<open>
  Claim C7.  Two calls of \<open>normalize\<close> on maps with the same content, whatever their
  addresses and the orders in which they are ranged over, return maps with the same
  content, and leave every existing table, the input among them, as it was.  Two calls of
  \<open>parseDSN\<close> with the same driver identifier and DSN, from any two stores, return the same
  error and maps with the same content, and leave the existing tables alone, provided the
  two parsers are pure themselves.
\<close>

theorem normalizer_is_pure:
  assumes "pure_parser Postgres" and "pure_parser MySQL"
    and "valid_ref h meta" and "valid_ref h' meta'"
    and "distinct (map fst (rangeMap h meta))" and "distinct (map fst (rangeMap h' meta'))"
    and "map_of (rangeMap h meta) = map_of (rangeMap h' meta')"
  shows "(case normalize_meta h meta of (g, m) \<Rightarrow>
           (case normalize_meta h' meta' of (g', m') \<Rightarrow>
              prefix h g \<and> rangeMap g meta = rangeMap h meta \<and>
              map_of (rangeMap g m) = map_of (rangeMap g' m'))) \<and>
         (case parseDSN Postgres MySQL h driverType dsn of (g, m, err) \<Rightarrow>
           (case parseDSN Postgres MySQL h' driverType dsn of (g', m', err') \<Rightarrow>
              prefix h g \<and> err = err' \<and> map_of (rangeMap g m) = map_of (rangeMap g' m')))"
proof (rule conjI)
  show "case normalize_meta h meta of (g, m) \<Rightarrow>
           (case normalize_meta h' meta' of (g', m') \<Rightarrow>
              prefix h g \<and> rangeMap g meta = rangeMap h meta \<and>
              map_of (rangeMap g m) = map_of (rangeMap g' m'))"
    using assms(3-7) by (rule normalize_calls_agree)
next
  consider (pq) "driverType = ''*pq.Driver''"
    | (my) "driverType \<noteq> ''*pq.Driver''" "driverType = ''*mysql.MySQLDriver''"
    | (no) "driverType \<noteq> ''*pq.Driver''" "driverType \<noteq> ''*mysql.MySQLDriver''"
    by blast
  then show "case parseDSN Postgres MySQL h driverType dsn of (g, m, err) \<Rightarrow>
           (case parseDSN Postgres MySQL h' driverType dsn of (g', m', err') \<Rightarrow>
              prefix h g \<and> err = err' \<and> map_of (rangeMap g m) = map_of (rangeMap g' m'))"
  proof cases
    case pq
    show ?thesis
      unfolding pq parseDSN_pq by (rule parse_then_normalize_agree [OF assms(1)])
  next
    case my
    show ?thesis
      unfolding my(2) parseDSN_mysql by (rule parse_then_normalize_agree [OF assms(2)])
  next
    case no
    then show ?thesis
      by (simp add: parseDSN_def normalize_eq valid_ref_def rangeMap_def)
  qed
qed

theorem normalizer_is_pure_witness:
  "pure_parser (\<lambda>h dsn. (h @ [[(''dbname'', dsn), (''sslmode'', ''disable'')]], MapAt (length h), None :: string option)) \<and>
   pure_parser (\<lambda>h dsn. (h, NilMap, Some ''unknown network'')) \<and>
   valid_ref [[(''user'', ''reader''), (''host'', ''localhost'')]] (MapAt 0) \<and>
   valid_ref [[], [(''host'', ''localhost''), (''user'', ''reader'')]] (MapAt 1) \<and>
   map_of (rangeMap [[(''user'', ''reader''), (''host'', ''localhost'')]] (MapAt 0)) =
     map_of (rangeMap [[], [(''host'', ''localhost''), (''user'', ''reader'')]] (MapAt 1)) \<and>
   (case normalize_meta [[(''user'', ''reader''), (''host'', ''localhost'')]] (MapAt 0) of (g, m) \<Rightarrow>
      (case normalize_meta [[], [(''host'', ''localhost''), (''user'', ''reader'')]] (MapAt 1) of (g', m') \<Rightarrow>
         prefix [[(''user'', ''reader''), (''host'', ''localhost'')]] g \<and>
         rangeMap g (MapAt 0) = rangeMap [[(''user'', ''reader''), (''host'', ''localhost'')]] (MapAt 0) \<and>
         map_of (rangeMap g m) = map_of (rangeMap g' m'))) \<and>
   (case parseDSN (\<lambda>h dsn. (h @ [[(''dbname'', dsn), (''sslmode'', ''disable'')]], MapAt (length h), None))
            (\<lambda>h dsn. (h, NilMap, Some ''unknown network''))
            [[(''user'', ''reader''), (''host'', ''localhost'')]] ''*pq.Driver'' ''city'' of (g, m, err) \<Rightarrow>
      (case parseDSN (\<lambda>h dsn. (h @ [[(''dbname'', dsn), (''sslmode'', ''disable'')]], MapAt (length h), None))
            (\<lambda>h dsn. (h, NilMap, Some ''unknown network''))
            [[], [(''host'', ''localhost''), (''user'', ''reader'')]] ''*pq.Driver'' ''city'' of (g', m', err') \<Rightarrow>
         prefix [[(''user'', ''reader''), (''host'', ''localhost'')]] g \<and> err = err' \<and>
         map_of (rangeMap g m) = map_of (rangeMap g' m')))"
proof -
  let ?P = "\<lambda>(h::mapheap) (dsn::string).
    (h @ [[(''dbname'', dsn), (''sslmode'', ''disable'')]], MapAt (length h), None :: string option)"
  let ?M = "\<lambda>(h::mapheap) (dsn::string). (h, NilMap, Some ''unknown network'')"
  let ?h = "[[(''user'', ''reader''), (''host'', ''localhost'')]]"
  let ?h' = "[[], [(''host'', ''localhost''), (''user'', ''reader'')]]"
  have p: "pure_parser ?P"
    by (simp add: pure_parser_def valid_ref_def rangeMap_def)
  have m: "pure_parser ?M"
    by (simp add: pure_parser_def valid_ref_def rangeMap_def)
  have v: "valid_ref ?h (MapAt 0)" and v': "valid_ref ?h' (MapAt 1)"
    by (simp_all add: valid_ref_def)
  have d: "distinct (map fst (rangeMap ?h (MapAt 0)))"
    and d': "distinct (map fst (rangeMap ?h' (MapAt 1)))"
    by (simp_all add: rangeMap_def)
  have e: "map_of (rangeMap ?h (MapAt 0)) = map_of (rangeMap ?h' (MapAt 1))"
    by (rule ext) (simp add: rangeMap_def)
  from normalizer_is_pure [OF p m v v' d d' e, of "''*pq.Driver''" "''city''"] p m v v' e
  show ?thesis by blast
qed

text \<open>
  Claim C8.  \<open>normalizeKey\<close> is injective on the keys it accepts; user,
  application_name, dbname, host and port are accepted and their canonical keys are
  pairwise distinct.  Hence, for an input with distinct raw keys, the result of
  \<open>normalize\<close> has one pair for each accepted pair of the input, and every accepted pair's
  value is found under its canonical key: no pair is overwritten by another one.
\<close>

theorem normalizeKey_no_collision:
  assumes "valid_ref h meta" and "distinct (map fst (rangeMap h meta))"
  shows "inj_on (\<lambda>k. fst (normalizeKey k)) {k. snd (normalizeKey k)} \<and>
         list_all (\<lambda>k. snd (normalizeKey k)) [''user'', ''application_name'', ''dbname'', ''host'', ''port''] \<and>
         distinct (map (\<lambda>k. fst (normalizeKey k)) [''user'', ''application_name'', ''dbname'', ''host'', ''port'']) \<and>
         (\<exists>e. normalize_meta h meta = (h @ [e], MapAt (length h)) \<and>
              length e = length (filter accepted (rangeMap h meta)) \<and>
              list_all (\<lambda>kv. accepted kv \<longrightarrow> map_of e (fst (canonical kv)) = Some (snd kv))
                (rangeMap h meta))"
proof (intro conjI)
  show "inj_on (\<lambda>k. fst (normalizeKey k)) {k. snd (normalizeKey k)}"
  proof (rule inj_onI)
    fix k k'
    assume "k \<in> {k. snd (normalizeKey k)}" "k' \<in> {k. snd (normalizeKey k)}"
      and "fst (normalizeKey k) = fst (normalizeKey k')"
    then have "normalizeKey k = (fst (normalizeKey k), True)"
      "normalizeKey k' = (fst (normalizeKey k), True)"
      by (simp_all add: prod_eq_iff)
    then show "k = k'" by (rule normalizeKey_inj)
  qed
  show "list_all (\<lambda>k. snd (normalizeKey k)) [''user'', ''application_name'', ''dbname'', ''host'', ''port'']"
    by (simp add: normalizeKey_def)
  show "distinct (map (\<lambda>k. fst (normalizeKey k)) [''user'', ''application_name'', ''dbname'', ''host'', ''port''])"
    by (simp add: normalizeKey_def)
  let ?xs = "rangeMap h meta"
  let ?e = "fold cell_step ?xs []"
  have "map_of ?e (fst (canonical kv)) = Some (snd kv)" if "kv \<in> set ?xs" "accepted kv" for kv
  proof -
    from that(2) have "normalizeKey (fst kv) = (fst (canonical kv), True)"
      by (simp add: accepted_def canonical_def prod_eq_iff)
    moreover from that(1) assms(2) have "map_of ?xs (fst kv) = Some (snd kv)" by simp
    ultimately show ?thesis
      using fold_cell_step_content [OF assms(2)] by blast
  qed
  then have "list_all (\<lambda>kv. accepted kv \<longrightarrow> map_of ?e (fst (canonical kv)) = Some (snd kv)) ?xs"
    by (simp add: list_all_iff)
  moreover have "length ?e = length (filter accepted ?xs)"
    using assms(2) by (rule normalized_length)
  ultimately show "\<exists>e. normalize_meta h meta = (h @ [e], MapAt (length h)) \<and>
              length e = length (filter accepted (rangeMap h meta)) \<and>
              list_all (\<lambda>kv. accepted kv \<longrightarrow> map_of e (fst (canonical kv)) = Some (snd kv))
                (rangeMap h meta)"
    using normalize_eq [OF assms(1)] by blast
qed

theorem normalizeKey_no_collision_witness:
  "valid_ref [[(''host'', ''localhost''), (''connect_timeout'', ''10''), (''port'', ''5432'')]] (MapAt 0) \<and>
   distinct (map fst (rangeMap [[(''host'', ''localhost''), (''connect_timeout'', ''10''), (''port'', ''5432'')]] (MapAt 0))) \<and>
   normalize_meta [[(''host'', ''localhost''), (''connect_timeout'', ''10''), (''port'', ''5432'')]] (MapAt 0) =
     ([[(''host'', ''localhost''), (''connect_timeout'', ''10''), (''port'', ''5432'')],
       [(''out.host'', ''localhost''), (''out.port'', ''5432'')]], MapAt 1) \<and>
   length [(''out.host'', ''localhost''), (''out.port'', ''5432'')] =
     length (filter accepted (rangeMap [[(''host'', ''localhost''), (''connect_timeout'', ''10''), (''port'', ''5432'')]] (MapAt 0))) \<and>
   inj_on (\<lambda>k. fst (normalizeKey k)) {k. snd (normalizeKey k)}"
proof -
  let ?h = "[[(''host'', ''localhost''), (''connect_timeout'', ''10''), (''port'', ''5432'')]]"
  have v: "valid_ref ?h (MapAt 0)" by (simp add: valid_ref_def)
  have d: "distinct (map fst (rangeMap ?h (MapAt 0)))" by (simp add: rangeMap_def)
  have n: "normalize_meta ?h (MapAt 0) = (?h @ [[(''out.host'', ''localhost''), (''out.port'', ''5432'')]], MapAt 1)"
    by (simp add: normalize_meta_def makeMap_def rangeMap_def normalize_step_def normalizeKey_def assign_def)
  from normalizeKey_no_collision [OF v d] n v d show ?thesis by auto
qed

section \<open>The tracer and the harness, block by block\<close>

lemma traced_call_eq:
  "traced_call w ty res stmt base ctx err =
     w\<lparr>tables := tables w @
          [case stmt of None \<Rightarrow> rangeMap (tables w) base
           | Some q \<Rightarrow> AList.update ''sql.query'' q (rangeMap (tables w) base)],
       objs := objs w @
          [\<lparr>OpType = ty, Resource = res, Meta = MapAt (length (tables w)), SpanID = next_id w,
            TraceID = (case ctx of None \<Rightarrow> next_id w | Some p \<Rightarrow> TraceID (objs w ! p)),
            ParentID = (case ctx of None \<Rightarrow> None | Some p \<Rightarrow> Some (SpanID (objs w ! p))),
            Status = err\<rparr>],
       next_id := Suc (next_id w),
       buffer := buffer w @ [length (objs w)]\<rparr>"
  by (cases stmt)
     (simp_all add: traced_call_def startSpan_def copyMap_def closeSpan_def SetMeta_def assign_def)

lemma CopySpan_frame:
  "buffer (fst (CopySpan share w p)) = buffer w"
  "transport (fst (CopySpan share w p)) = transport w"
  "handed (fst (CopySpan share w p)) = handed w"
  "next_id (fst (CopySpan share w p)) = next_id w"
  "snd (CopySpan share w p) = length (objs w)"
  "length (objs (fst (CopySpan share w p))) = Suc (length (objs w))"
  "take (length (objs w)) (objs (fst (CopySpan share w p))) = objs w"
  by (simp_all add: CopySpan_def copyMap_def)

lemma expect_resource_frame:
  "buffer (snd (expect_resource share p l a tw)) = buffer (snd tw)"
  "transport (snd (expect_resource share p l a tw)) = transport (snd tw)"
  "handed (snd (expect_resource share p l a tw)) = handed (snd tw)"
  "next_id (snd (expect_resource share p l a tw)) = next_id (snd tw)"
  "length (objs (snd (expect_resource share p l a tw))) = Suc (length (objs (snd tw)))"
  by (simp_all add: expect_resource_def CopySpan_def copyMap_def set_Resource_def Let_def split_beta)

lemma expect_resource_objs:
  "objs (snd (expect_resource share p l a tw)) =
     objs (snd tw) @ [(objs (snd tw) ! p)\<lparr>Resource := l,
                 Meta := (if share then Meta (objs (snd tw) ! p) else MapAt (length (tables (snd tw))))\<rparr>]"
  by (simp_all add: expect_resource_def CopySpan_def copyMap_def set_Resource_def Let_def split_beta)

lemma expect_resource_tables:
  "tables (snd (expect_resource share p l a tw)) =
     (if share then tables (snd tw) else tables (snd tw) @ [rangeMap (tables (snd tw)) (Meta (objs (snd tw) ! p))])"
  by (simp_all add: expect_resource_def CopySpan_def copyMap_def set_Resource_def Let_def split_beta)

lemma expect_query_frame:
  "buffer (snd (expect_query share p q a tw)) = buffer (snd tw)"
  "transport (snd (expect_query share p q a tw)) = transport (snd tw)"
  "handed (snd (expect_query share p q a tw)) = handed (snd tw)"
  "next_id (snd (expect_query share p q a tw)) = next_id (snd tw)"
  "length (objs (snd (expect_query share p q a tw))) = Suc (length (objs (snd tw)))"
  by (simp_all add: expect_query_def CopySpan_def copyMap_def set_Resource_def SetMeta_def Let_def split_beta
      split: mapref.splits)

lemma expect_query_objs:
  "objs (snd (expect_query share p q a tw)) =
     objs (snd tw) @ [(objs (snd tw) ! p)\<lparr>Resource := q,
                 Meta := (if share \<and> Meta (objs (snd tw) ! p) \<noteq> NilMap then Meta (objs (snd tw) ! p)
                          else MapAt (length (tables (snd tw))))\<rparr>]"
  by (cases "Meta (objs (snd tw) ! p)") (simp_all add: expect_query_def CopySpan_def copyMap_def set_Resource_def SetMeta_def Let_def split_beta)

lemma expect_query_tables:
  "p < length (objs (snd tw)) \<Longrightarrow>
   tables (snd (expect_query share p q a tw)) =
     deleteKey
       (if share
        then (case Meta (objs (snd tw) ! p) of
                NilMap \<Rightarrow> tables (snd tw) @ [[(''sql.query'', q)]]
              | MapAt b \<Rightarrow> assign (tables (snd tw)) b ''sql.query'' q)
        else tables (snd tw) @ [AList.update ''sql.query'' q (rangeMap (tables (snd tw)) (Meta (objs (snd tw) ! p)))])
       (Meta (objs (snd tw) ! p)) ''sql.query''"
  by (cases "Meta (objs (snd tw) ! p)") (simp_all add: expect_query_def CopySpan_def copyMap_def set_Resource_def SetMeta_def Let_def
        assign_def nth_append split_beta)

lemma expect_resource_old:
  "i < length (objs (snd tw)) \<Longrightarrow> objs (snd (expect_resource share p l a tw)) ! i = objs (snd tw) ! i"
  by (simp add: expect_resource_objs nth_append)

lemma expect_query_old:
  "i < length (objs (snd tw)) \<Longrightarrow> objs (snd (expect_query share p q a tw)) ! i = objs (snd tw) ! i"
  by (simp add: expect_query_objs nth_append)

lemma expect_resource_types:
  "map OpType (objs (snd (expect_resource share p l a tw))) =
     map OpType (objs (snd tw)) @ [OpType (objs (snd tw) ! p)]"
  by (simp add: expect_resource_objs)

lemma expect_query_types:
  "map OpType (objs (snd (expect_query share p q a tw))) =
     map OpType (objs (snd tw)) @ [OpType (objs (snd tw) ! p)]"
  by (simp add: expect_query_objs)

lemmas harness_frame =
  expect_resource_frame expect_query_frame expect_resource_old expect_query_old
  expect_resource_types expect_query_types

lemma traced_call_frame:
  "buffer (traced_call w ty res stmt base ctx err) = buffer w @ [length (objs w)]"
  "transport (traced_call w ty res stmt base ctx err) = transport w"
  "handed (traced_call w ty res stmt base ctx err) = handed w"
  "next_id (traced_call w ty res stmt base ctx err) = Suc (next_id w)"
  "length (objs (traced_call w ty res stmt base ctx err)) = Suc (length (objs w))"
  "map OpType (objs (traced_call w ty res stmt base ctx err)) = map OpType (objs w) @ [ty]"
  by (simp_all add: traced_call_eq)

lemma traced_call_old:
  "i < length (objs w) \<Longrightarrow> objs (traced_call w ty res stmt base ctx err) ! i = objs w ! i"
  by (simp add: traced_call_eq nth_append)

lemma traced_call_new:
  "i = length (objs w) \<Longrightarrow>
   TraceID (objs (traced_call w ty res stmt base ctx err) ! i) =
     (case ctx of None \<Rightarrow> next_id w | Some p \<Rightarrow> TraceID (objs w ! p))"
  by (simp add: traced_call_eq)

lemma NewRootSpan_frame:
  "snd (NewRootSpan w name service res) = length (objs w)"
  "buffer (fst (NewRootSpan w name service res)) = buffer w"
  "transport (fst (NewRootSpan w name service res)) = transport w"
  "handed (fst (NewRootSpan w name service res)) = handed w"
  "next_id (fst (NewRootSpan w name service res)) = Suc (next_id w)"
  "length (objs (fst (NewRootSpan w name service res))) = Suc (length (objs w))"
  "map OpType (objs (fst (NewRootSpan w name service res))) = map OpType (objs w) @ [TOther]"
  by (simp_all add: NewRootSpan_def startSpan_def copyMap_def)

lemma NewRootSpan_old:
  "i < length (objs w) \<Longrightarrow> objs (fst (NewRootSpan w name service res)) ! i = objs w ! i"
  by (simp add: NewRootSpan_def startSpan_def copyMap_def nth_append)

lemma NewRootSpan_new:
  "i = length (objs w) \<Longrightarrow> TraceID (objs (fst (NewRootSpan w name service res)) ! i) = next_id w"
  by (simp add: NewRootSpan_def startSpan_def copyMap_def)

lemma flushed_frame:
  "snd (Traces (FlushTraces w)) = transport w @ group_traces (objs w) (buffer w)"
  "buffer (fst (Traces (FlushTraces w))) = []"
  "transport (fst (Traces (FlushTraces w))) = []"
  "handed (fst (Traces (FlushTraces w))) =
     handed w @ [transport w @ group_traces (objs w) (buffer w)]"
  "next_id (fst (Traces (FlushTraces w))) = next_id w"
  "objs (fst (Traces (FlushTraces w))) = objs w"
  by (simp_all add: Traces_def FlushTraces_def)

lemma group_traces_one: "group_traces os [a] = [[a]]"
  by (simp add: group_traces_def)

lemma group_traces_three:
  assumes "TraceID (os ! a) = TraceID (os ! b)" "TraceID (os ! b) = TraceID (os ! c)"
  shows "group_traces os [a, b, c] = [[a, b, c]]"
  using assms by (simp add: group_traces_def)

lemma and_then_weak_cong: "r = r' \<Longrightarrow> and_then r f = and_then r' f"
  by simp

lemma and_then_Inr: "and_then (Inr x) f = f x"
  by (simp add: and_then_def)

lemma and_then_Inl: "and_then (Inl x) f = Inl x"
  by (simp add: and_then_def)

lemmas run_defs =
  DB_Ping_def DB_Query_def DB_Prepare_def Stmt_Exec_def DB_BeginTx_def DB_Begin_def
  Tx_Rollback_def Tx_ExecContext_def Tx_Commit_def Background_def ContextWithSpan_def
  capture_def index_def and_then_Inr and_then_Inl deref_def
  traced_call_frame traced_call_old traced_call_new
  NewRootSpan_frame NewRootSpan_old NewRootSpan_new flushed_frame
  group_traces_one group_traces_three harness_frame

lemma length_failures_simps:
  "length_failures [] = []"
  "length_failures (assert_Equal_nil t err) = length_failures t"
  "length_failures (assert_Len t xs n) =
     (if length xs = n then length_failures t
      else length_failures t @ [WrongLength n (length xs)])"
  "length_failures (CompareSpan t w e a) = length_failures t"
  by (simp_all add: length_failures_def assert_Equal_nil_def assert_Len_def CompareSpan_def)

lemma length_failures_expect:
  "length_failures (fst (expect_resource share p l a tw)) = length_failures (fst tw)"
  "length_failures (fst (expect_query share p q a tw)) = length_failures (fst tw)"
  by (simp_all add: expect_resource_def expect_query_def Let_def split_beta length_failures_simps
      cong: let_weak_cong)

lemmas run_simps = run_defs length_failures_simps length_failures_expect

lemma testDB_run:
  assumes "buffer w = []" "transport w = []" "p < length (objs w)" "drv 1 = None"
  shows "case testDB share drv db p (t, w) of
           Inl x \<Rightarrow> False
         | Inr (t', w') \<Rightarrow>
             length_failures t' = length_failures t \<and>
             buffer w' = [] \<and> transport w' = [] \<and>
             handed w' = handed w @ [[[length (objs w)]], [[length (objs w) + 2]]] \<and>
             map OpType (objs w') =
               map OpType (objs w) @ [TConnectionCheck, OpType (objs w ! p), TQuery, OpType (objs w ! p)] \<and>
             objs w' ! p = objs w ! p"
  using assms
  by (simp add: testDB_def Let_def split_beta run_simps
      cong: let_weak_cong and_then_weak_cong prod.case_cong_weak)

lemma testStatement_run:
  assumes "buffer w = []" "transport w = []" "p < length (objs w)" "drv 2 = None"
  shows "case testStatement share drv db p (t, w) of
           Inl x \<Rightarrow> False
         | Inr (t', w') \<Rightarrow>
             length_failures t' = length_failures t \<and>
             buffer w' = [] \<and> transport w' = [] \<and>
             handed w' = handed w @ [[[length (objs w)]], [[length (objs w) + 2]]] \<and>
             map OpType (objs w') =
               map OpType (objs w) @ [TPrepare, OpType (objs w ! p), TExec, OpType (objs w ! p)] \<and>
             objs w' ! p = objs w ! p"
  using assms
  by (simp add: testStatement_def Let_def split_beta run_simps
      cong: let_weak_cong and_then_weak_cong prod.case_cong_weak)

lemma testTransaction_run:
  assumes "buffer w = []" "transport w = []" "p < length (objs w)" "drv 4 = None" "drv 6 = None"
  shows "case testTransaction share drv db p (t, w) of
           Inl x \<Rightarrow> False
         | Inr (t', w') \<Rightarrow>
             length_failures t' = length_failures t \<and>
             buffer w' = [] \<and> transport w' = [] \<and>
             handed w' = handed w @
               [[[length (objs w)]], [[length (objs w) + 2]],
                [[length (objs w) + 5, length (objs w) + 6, length (objs w) + 7]]] \<and>
             map OpType (objs w') =
               map OpType (objs w) @
                 [TBegin, OpType (objs w ! p), TRollback, OpType (objs w ! p), TOther,
                  TBegin, TExec, TCommit, OpType (objs w ! p), OpType (objs w ! p)] \<and>
             objs w' ! p = objs w ! p"
  using assms
  by (simp add: testTransaction_def Let_def split_beta run_simps
      cong: let_weak_cong and_then_weak_cong prod.case_cong_weak)

lemma types_nth:
  assumes "map OpType os = pre @ new" and "length pre = n" and "k < length new"
  shows "OpType (os ! (n + k)) = new ! k"
proof -
  from assms have "n + k < length os"
    by (metis add_less_cancel_left length_append length_map)
  then have "OpType (os ! (n + k)) = map OpType os ! (n + k)" by simp
  also have "\<dots> = new ! k" using assms by (simp add: nth_append)
  finally show ?thesis .
qed

text \<open>
  Claim C2.  Run from a state with nothing buffered or captured, with a valid template,
  and with a driver that returns the handles the script goes on to use (the query, the
  prepare and the two begins succeed), the script does not panic, none of its
  \<^verbatim>\<open>assert.Len\<close> assertions fails, and the seven values it reads from the transport are,
  in order: one trace of one span for the Ping, the query, the prepare, the statement
  exec, the begin and the rollback, and one trace of three spans, begin, exec and commit in
  this order, for the transaction begun with the ambient parent.
\<close>

theorem all_tests_span_counts:
  assumes "buffer w = []" and "transport w = []" and "p < length (objs w)"
    and "drv 1 = None" and "drv 2 = None" and "drv 4 = None" and "drv 6 = None"
  shows "\<exists>t' w'. AllSQLTests share drv db p (t, w) = Inr (t', w') \<and>
           length_failures t' = length_failures t \<and>
           handed w' = handed w @
             [[[length (objs w)]], [[length (objs w) + 2]], [[length (objs w) + 4]],
              [[length (objs w) + 6]], [[length (objs w) + 8]], [[length (objs w) + 10]],
              [[length (objs w) + 13, length (objs w) + 14, length (objs w) + 15]]] \<and>
           map (\<lambda>s. OpType (objs w' ! s))
             [length (objs w), length (objs w) + 2, length (objs w) + 4, length (objs w) + 6,
              length (objs w) + 8, length (objs w) + 10,
              length (objs w) + 13, length (objs w) + 14, length (objs w) + 15] =
             [TConnectionCheck, TQuery, TPrepare, TExec, TBegin, TRollback,
              TBegin, TExec, TCommit]"
proof -
  let ?n = "length (objs w)"
  let ?c = "OpType (objs w ! p)"
  from testDB_run [where drv = drv and w = w and p = p and share = share and db = db and t = t, OF assms(1-4)]
  obtain t1 w1 where r1: "testDB share drv db p (t, w) = Inr (t1, w1)"
    and f1: "length_failures t1 = length_failures t" "buffer w1 = []" "transport w1 = []"
    and h1: "handed w1 = handed w @ [[[?n]], [[?n + 2]]]"
    and o1: "map OpType (objs w1) = map OpType (objs w) @ [TConnectionCheck, ?c, TQuery, ?c]"
    and p1: "objs w1 ! p = objs w ! p"
    by (cases "testDB share drv db p (t, w)") auto
  have "length (map OpType (objs w1)) = length (map OpType (objs w) @ [TConnectionCheck, ?c, TQuery, ?c])"
    by (simp only: o1)
  then have l1: "length (objs w1) = ?n + 4" by simp
  with assms(3) have v1: "p < length (objs w1)" by simp
  from testStatement_run [where drv = drv and w = w1 and p = p and share = share and db = db and t = t1, OF f1(2,3) v1 assms(5)]
  obtain t2 w2 where r2: "testStatement share drv db p (t1, w1) = Inr (t2, w2)"
    and f2: "length_failures t2 = length_failures t1" "buffer w2 = []" "transport w2 = []"
    and h2: "handed w2 = handed w1 @ [[[?n + 4]], [[?n + 6]]]"
    and o2: "map OpType (objs w2) = map OpType (objs w1) @ [TPrepare, ?c, TExec, ?c]"
    and p2: "objs w2 ! p = objs w ! p"
    by (cases "testStatement share drv db p (t1, w1)") (auto simp: l1 p1 add.commute)
  have "length (map OpType (objs w2)) = length (map OpType (objs w1) @ [TPrepare, ?c, TExec, ?c])"
    by (simp only: o2)
  then have l2: "length (objs w2) = ?n + 8" by (simp add: l1)
  with assms(3) have v2: "p < length (objs w2)" by simp
  from testTransaction_run [where drv = drv and w = w2 and p = p and share = share and db = db and t = t2, OF f2(2,3) v2 assms(6,7)]
  obtain t3 w3 where r3: "testTransaction share drv db p (t2, w2) = Inr (t3, w3)"
    and f3: "length_failures t3 = length_failures t2"
    and h3: "handed w3 = handed w2 @ [[[?n + 8]], [[?n + 10]], [[?n + 13, ?n + 14, ?n + 15]]]"
    and o3: "map OpType (objs w3) = map OpType (objs w2) @
                 [TBegin, ?c, TRollback, ?c, TOther, TBegin, TExec, TCommit, ?c, ?c]"
    by (cases "testTransaction share drv db p (t2, w2)") (auto simp: l2 p2 add.commute)
  have run: "AllSQLTests share drv db p (t, w) = Inr (t3, w3)"
    by (simp add: AllSQLTests_def r1 r2 r3 and_then_Inr)
  have types: "map OpType (objs w3) = map OpType (objs w) @
      [TConnectionCheck, ?c, TQuery, ?c, TPrepare, ?c, TExec, ?c,
       TBegin, ?c, TRollback, ?c, TOther, TBegin, TExec, TCommit, ?c, ?c]"
    by (simp add: o3 o2 o1)
  have len: "length (map OpType (objs w)) = ?n" by simp
  note nth = types_nth [OF types len]
  have k: "OpType (objs w3 ! ?n) = TConnectionCheck" "OpType (objs w3 ! (?n + 2)) = TQuery"
    "OpType (objs w3 ! (?n + 4)) = TPrepare" "OpType (objs w3 ! (?n + 6)) = TExec"
    "OpType (objs w3 ! (?n + 8)) = TBegin" "OpType (objs w3 ! (?n + 10)) = TRollback"
    "OpType (objs w3 ! (?n + 13)) = TBegin" "OpType (objs w3 ! (?n + 14)) = TExec"
    "OpType (objs w3 ! (?n + 15)) = TCommit"
    using nth [of 0] nth [of 2] nth [of 4] nth [of 6] nth [of 8] nth [of 10] nth [of 13]
      nth [of 14] nth [of 15]
    by simp_all
  from k have kinds: "map (\<lambda>s. OpType (objs w3 ! s))
             [?n, ?n + 2, ?n + 4, ?n + 6, ?n + 8, ?n + 10, ?n + 13, ?n + 14, ?n + 15] =
             [TConnectionCheck, TQuery, TPrepare, TExec, TBegin, TRollback,
              TBegin, TExec, TCommit]"
    by simp
  have hand: "handed w3 = handed w @
             [[[?n]], [[?n + 2]], [[?n + 4]], [[?n + 6]], [[?n + 8]], [[?n + 10]],
              [[?n + 13, ?n + 14, ?n + 15]]]"
    by (simp add: h3 h2 h1)
  have fails: "length_failures t3 = length_failures t" by (simp add: f3 f2 f1)
  show ?thesis
    by (intro exI conjI) (rule run, rule fails, rule hand, rule kinds)
qed

theorem all_tests_span_counts_witness:
  "buffer example_world = [] \<and> transport example_world = [] \<and>
   0 < length (objs example_world) \<and>
   (\<exists>t' w'. AllSQLTests True (\<lambda>i. None) example_db 0 ([], example_world) = Inr (t', w') \<and>
      length_failures t' = [] \<and>
      handed w' = [[[1]], [[3]], [[5]], [[7]], [[9]], [[11]], [[14, 15, 16]]] \<and>
      map (\<lambda>s. OpType (objs w' ! s)) [1, 3, 5, 7, 9, 11, 14, 15, 16] =
        [TConnectionCheck, TQuery, TPrepare, TExec, TBegin, TRollback, TBegin, TExec, TCommit])"
proof -
  have b: "buffer example_world = []" and tr: "transport example_world = []"
    and p: "0 < length (objs example_world)"
    by (simp_all add: example_world_def)
  have d: "(\<lambda>i::nat. None :: error) 1 = None" "(\<lambda>i::nat. None :: error) 2 = None"
    "(\<lambda>i::nat. None :: error) 4 = None" "(\<lambda>i::nat. None :: error) 6 = None"
    by simp_all
  have n: "length (objs example_world) = 1" and h: "handed example_world = []"
    by (simp_all add: example_world_def)
  from all_tests_span_counts [where drv = "\<lambda>i. None" and w = example_world and p = 0
      and share = True and db = example_db and t = "[]", OF b tr p d]
  show ?thesis
    using b tr p by (simp add: n h length_failures_def numeral_3_eq_3)
qed

lemma produced_traced_call:
  "produced w (traced_call w ty res stmt base ctx err) =
     [\<lparr>OpType = ty, Resource = res, Meta = MapAt (length (tables w)), SpanID = next_id w,
       TraceID = (case ctx of None \<Rightarrow> next_id w | Some p \<Rightarrow> TraceID (objs w ! p)),
       ParentID = (case ctx of None \<Rightarrow> None | Some p \<Rightarrow> Some (SpanID (objs w ! p))),
       Status = err\<rparr>]"
  by (simp add: produced_def traced_call_eq)

lemma tag_traced_call:
  "map_of (rangeMap (tables (traced_call w ty res (Some q) base ctx err)) (MapAt (length (tables w))))
     ''sql.query'' = Some q"
  by (simp add: traced_call_eq rangeMap_def AList.update_conv')

text \<open>
  Claim C6.  Executing a statement that \<open>Prepare\<close> returned submits one exec span whose
  resource name and whose statement-text tag are the text given to \<open>Prepare\<close>, whatever the
  arguments, the context, the driver's answer and the state at execution time.
\<close>

theorem prepared_statement_text:
  assumes "DB_Prepare db ctx q err w = (w1, Some stmt, err1)"
  shows "case Stmt_Exec stmt ctx' args err' w2 of (w3, err3) \<Rightarrow>
           map (\<lambda>s. (OpType s, Resource s, map_of (rangeMap (tables w3) (Meta s)) ''sql.query''))
             (produced w2 w3) = [(TExec, q, Some q)] \<and> err3 = err'"
proof -
  from assms have "stmt_query stmt = q"
    by (auto simp: DB_Prepare_def split: if_splits)
  then show ?thesis
    by (simp add: Stmt_Exec_def produced_traced_call tag_traced_call)
qed

theorem prepared_statement_text_witness:
  "DB_Prepare example_db Background ''INSERT INTO city(name) VALUES($1)'' None example_world =
     (fst (DB_Prepare example_db Background ''INSERT INTO city(name) VALUES($1)'' None example_world),
      Some \<lparr>stmt_query = ''INSERT INTO city(name) VALUES($1)'', stmt_descriptor = MapAt 0\<rparr>, None) \<and>
   (case Stmt_Exec \<lparr>stmt_query = ''INSERT INTO city(name) VALUES($1)'', stmt_descriptor = MapAt 0\<rparr>
           Background [''New York''] None
           (fst (DB_Prepare example_db Background ''INSERT INTO city(name) VALUES($1)'' None example_world)) of
      (w3, err3) \<Rightarrow>
        map (\<lambda>s. (OpType s, Resource s, map_of (rangeMap (tables w3) (Meta s)) ''sql.query''))
          (produced (fst (DB_Prepare example_db Background ''INSERT INTO city(name) VALUES($1)'' None
                            example_world)) w3) =
          [(TExec, ''INSERT INTO city(name) VALUES($1)'', Some ''INSERT INTO city(name) VALUES($1)'')] \<and>
        err3 = None)"
proof -
  have p: "DB_Prepare example_db Background ''INSERT INTO city(name) VALUES($1)'' None example_world =
     (fst (DB_Prepare example_db Background ''INSERT INTO city(name) VALUES($1)'' None example_world),
      Some \<lparr>stmt_query = ''INSERT INTO city(name) VALUES($1)'', stmt_descriptor = MapAt 0\<rparr>, None)"
    by (simp add: DB_Prepare_def example_db_def)
  show ?thesis
    by (intro conjI) (rule p, rule prepared_statement_text [OF p])
qed

lemma BeginTx_result:
  assumes "DB_BeginTx db ctx err w = (w1, Some tx, err1)"
  shows "w1 = traced_call w TBegin ''Begin'' None (descriptor db) ctx err"
    and "tx_parent tx = ctx" and "tx_descriptor tx = descriptor db" and "err1 = err"
  using assms by (auto simp: DB_BeginTx_def split: if_splits)

text \<open>
  Claim C5.  When a transaction is begun with an ambient parent span \<open>P\<close> in the context,
  the begin span is a child of \<open>P\<close> with \<open>P\<close>'s trace identifier; every exec, commit or
  rollback on that transaction, in any later state in which \<open>P\<close> still has its trace
  identifier, submits a span with that identifier; and begin, exec, commit from a state
  with nothing buffered or captured are flushed as one trace of three spans in submission
  order.
\<close>

theorem transaction_shares_parent_trace:
  assumes "p < length (objs w)"
    and "DB_BeginTx db (ContextWithSpan Background p) err w = (w1, Some tx, err1)"
  shows "map (\<lambda>s. (OpType s, TraceID s, ParentID s)) (produced w w1) =
           [(TBegin, TraceID (objs w ! p), Some (SpanID (objs w ! p)))] \<and>
         (TraceID (objs w2 ! p) = TraceID (objs w ! p) \<longrightarrow>
            map (\<lambda>s. (OpType s, TraceID s)) (produced w2 (fst (Tx_ExecContext tx ctx q e2 w2))) =
              [(TExec, TraceID (objs w ! p))] \<and>
            map (\<lambda>s. (OpType s, TraceID s)) (produced w2 (fst (Tx_Commit tx e3 w2))) =
              [(TCommit, TraceID (objs w ! p))] \<and>
            map (\<lambda>s. (OpType s, TraceID s)) (produced w2 (fst (Tx_Rollback tx e4 w2))) =
              [(TRollback, TraceID (objs w ! p))]) \<and>
         (buffer w = [] \<and> transport w = [] \<longrightarrow>
            (case Tx_ExecContext tx ctx q e2 w1 of (w2', r2) \<Rightarrow>
               (case Tx_Commit tx e3 w2' of (w3, r3) \<Rightarrow>
                  snd (Traces (FlushTraces w3)) =
                    [[length (objs w), length (objs w) + 1, length (objs w) + 2]] \<and>
                  map (\<lambda>s. (OpType (objs w3 ! s), TraceID (objs w3 ! s)))
                    [length (objs w), length (objs w) + 1, length (objs w) + 2] =
                    [(TBegin, TraceID (objs w ! p)), (TExec, TraceID (objs w ! p)),
                     (TCommit, TraceID (objs w ! p))])))"
proof -
  note tx = BeginTx_result [OF assms(2)]
  have par: "tx_parent tx = Some p" by (simp add: tx(2) ContextWithSpan_def)
  have first: "map (\<lambda>s. (OpType s, TraceID s, ParentID s)) (produced w w1) =
           [(TBegin, TraceID (objs w ! p), Some (SpanID (objs w ! p)))]"
    by (simp add: tx(1) produced_traced_call ContextWithSpan_def)
  have later: "TraceID (objs w2 ! p) = TraceID (objs w ! p) \<longrightarrow>
            map (\<lambda>s. (OpType s, TraceID s)) (produced w2 (fst (Tx_ExecContext tx ctx q e2 w2))) =
              [(TExec, TraceID (objs w ! p))] \<and>
            map (\<lambda>s. (OpType s, TraceID s)) (produced w2 (fst (Tx_Commit tx e3 w2))) =
              [(TCommit, TraceID (objs w ! p))] \<and>
            map (\<lambda>s. (OpType s, TraceID s)) (produced w2 (fst (Tx_Rollback tx e4 w2))) =
              [(TRollback, TraceID (objs w ! p))]"
    by (simp add: Tx_ExecContext_def Tx_Commit_def Tx_Rollback_def par produced_traced_call)
  have scenario: "buffer w = [] \<and> transport w = [] \<longrightarrow>
            (case Tx_ExecContext tx ctx q e2 w1 of (w2', r2) \<Rightarrow>
               (case Tx_Commit tx e3 w2' of (w3, r3) \<Rightarrow>
                  snd (Traces (FlushTraces w3)) =
                    [[length (objs w), length (objs w) + 1, length (objs w) + 2]] \<and>
                  map (\<lambda>s. (OpType (objs w3 ! s), TraceID (objs w3 ! s)))
                    [length (objs w), length (objs w) + 1, length (objs w) + 2] =
                    [(TBegin, TraceID (objs w ! p)), (TExec, TraceID (objs w ! p)),
                     (TCommit, TraceID (objs w ! p))]))"
    using assms(1)
    by (simp add: Tx_ExecContext_def Tx_Commit_def par tx(1,3) traced_call_eq nth_append
        Traces_def FlushTraces_def group_traces_three ContextWithSpan_def)
  show ?thesis
    by (intro conjI) (rule first, rule later, rule scenario)
qed

theorem transaction_shares_parent_trace_witness:
  "1 < length (objs example_traced_world) \<and>
   DB_BeginTx example_db (ContextWithSpan Background 1) None example_traced_world =
     (fst (DB_BeginTx example_db (ContextWithSpan Background 1) None example_traced_world),
      Some \<lparr>tx_parent = Some 1, tx_descriptor = MapAt 0\<rparr>, None) \<and>
   buffer example_traced_world = [] \<and> transport example_traced_world = [] \<and>
   map (\<lambda>s. (OpType s, TraceID s, ParentID s))
     (produced example_traced_world
        (fst (DB_BeginTx example_db (ContextWithSpan Background 1) None example_traced_world))) =
     [(TBegin, 1, Some 1)] \<and>
   (case Tx_ExecContext \<lparr>tx_parent = Some 1, tx_descriptor = MapAt 0\<rparr> Background
           ''INSERT INTO city(name) VALUES(1)'' None
           (fst (DB_BeginTx example_db (ContextWithSpan Background 1) None example_traced_world)) of
      (w2, r2) \<Rightarrow>
        (case Tx_Commit \<lparr>tx_parent = Some 1, tx_descriptor = MapAt 0\<rparr> None w2 of
           (w3, r3) \<Rightarrow>
             snd (Traces (FlushTraces w3)) = [[2, 3, 4]] \<and>
             map (\<lambda>s. (OpType (objs w3 ! s), TraceID (objs w3 ! s))) [2, 3, 4] =
               [(TBegin, 1), (TExec, 1), (TCommit, 1)]))"
proof -
  let ?w = example_traced_world
  let ?tx = "\<lparr>tx_parent = Some 1, tx_descriptor = MapAt 0\<rparr>"
  have w: "length (objs ?w) = 2" "buffer ?w = []" "transport ?w = []"
    "TraceID (objs ?w ! Suc 0) = Suc 0" "SpanID (objs ?w ! Suc 0) = Suc 0"
    by (simp_all add: example_traced_world_def example_world_def NewRootSpan_def startSpan_def
        copyMap_def)
  have p: "1 < length (objs ?w)" by (simp add: w)
  have b: "DB_BeginTx example_db (ContextWithSpan Background 1) None ?w =
     (fst (DB_BeginTx example_db (ContextWithSpan Background 1) None ?w), Some ?tx, None)"
    by (simp add: DB_BeginTx_def example_db_def ContextWithSpan_def)
  from transaction_shares_parent_trace [OF p b, where ctx = Background
      and q = "''INSERT INTO city(name) VALUES(1)''" and ?e2.0 = None and ?e3.0 = None]
  show ?thesis
    using b by (simp add: w)
qed

lemma map_of_deleteKey:
  "a < length h \<Longrightarrow>
   map_of (rangeMap (deleteKey h (MapAt a) k) (MapAt a)) = (map_of (h ! a))(k := None)"
  by (simp add: deleteKey_def rangeMap_def AList.delete_conv')

lemma expect_query_template:
  assumes "p < length (objs w)" and "valid_ref (tables w) (Meta (objs w ! p))"
  shows "map_of (rangeMap (tables (snd (expect_query share p q a (t, w)))) (Meta (objs w ! p))) =
           (map_of (rangeMap (tables w) (Meta (objs w ! p))))(''sql.query'' := None)"
proof (cases "Meta (objs w ! p)")
  case NilMap
  with assms(1) show ?thesis
    by (simp add: expect_query_tables deleteKey_def rangeMap_def)
next
  case (MapAt b)
  with assms(2) have b: "b < length (tables w)" by (simp add: valid_ref_def)
  show ?thesis
  proof (cases share)
    case True
    with assms(1) MapAt b show ?thesis
      by (simp add: expect_query_tables deleteKey_def rangeMap_def assign_def
          AList.delete_conv' AList.update_conv')
  next
    case False
    with assms(1) MapAt b show ?thesis
      by (simp add: expect_query_tables deleteKey_def rangeMap_def nth_append
          AList.delete_conv')
  qed
qed

lemma expect_query_other_tables:
  assumes "p < length (objs w)" and "b < length (tables w)" and "Meta (objs w ! p) \<noteq> MapAt b"
  shows "tables (snd (expect_query share p q a (t, w))) ! b = tables w ! b"
  using assms
  by (cases "Meta (objs w ! p)")
     (simp_all add: expect_query_tables deleteKey_def assign_def nth_append)

lemma expect_query_tables_length:
  assumes "p < length (objs w)"
  shows "length (tables w) \<le> length (tables (snd (expect_query share p q a (t, w))))"
  using assms
  by (cases "Meta (objs w ! p)")
     (simp_all add: expect_query_tables deleteKey_def assign_def)

text \<open>
  Claim C9.  The check of a span with statement text, which the harness runs after the
  query, the prepare, the statement exec and the exec in the transaction, leaves the
  template object as it was, and of the template's metadata it removes the key
  \<^verbatim>\<open>sql.query\<close> and nothing else, whether or not the copy shares the template's table.
  No span object or table that existed is changed otherwise, nor is the tracer.
\<close>

theorem expect_query_clears_tag_only:
  assumes "p < length (objs w)" and "valid_ref (tables w) (Meta (objs w ! p))"
  shows "case expect_query share p q a (t, w) of (t', w') \<Rightarrow>
           objs w' ! p = objs w ! p \<and>
           map_of (rangeMap (tables w') (Meta (objs w' ! p))) =
             (map_of (rangeMap (tables w) (Meta (objs w ! p))))(''sql.query'' := None) \<and>
           map_of (rangeMap (tables w') (Meta (objs w' ! p))) ''sql.query'' = None \<and>
           take (length (objs w)) (objs w') = objs w \<and>
           length (tables w) \<le> length (tables w') \<and>
           (\<forall>b < length (tables w). Meta (objs w ! p) \<noteq> MapAt b \<longrightarrow> tables w' ! b = tables w ! b) \<and>
           buffer w' = buffer w \<and> transport w' = transport w \<and> handed w' = handed w \<and>
           next_id w' = next_id w"
proof -
  obtain t' w' where r: "expect_query share p q a (t, w) = (t', w')" by (cases "expect_query share p q a (t, w)")
  then have w': "w' = snd (expect_query share p q a (t, w))" by simp
  have old: "objs w' ! p = objs w ! p"
    unfolding w' using assms(1) by (simp add: expect_query_old)
  have content: "map_of (rangeMap (tables w') (Meta (objs w ! p))) =
             (map_of (rangeMap (tables w) (Meta (objs w ! p))))(''sql.query'' := None)"
    unfolding w' using assms by (rule expect_query_template)
  have objs: "take (length (objs w)) (objs w') = objs w"
    unfolding w' by (simp add: expect_query_objs)
  have others: "\<forall>b < length (tables w). Meta (objs w ! p) \<noteq> MapAt b \<longrightarrow> tables w' ! b = tables w ! b"
    unfolding w' using assms(1) by (simp add: expect_query_other_tables)
  have len: "length (tables w) \<le> length (tables w')"
    unfolding w' using assms(1) by (rule expect_query_tables_length)
  have frame: "buffer w' = buffer w" "transport w' = transport w" "handed w' = handed w"
    "next_id w' = next_id w"
    unfolding w' by (simp_all add: expect_query_frame)
  show ?thesis
    unfolding r using old content objs others len frame by simp
qed

theorem expect_query_clears_tag_only_witness:
  "0 < length (objs example_world) \<and>
   valid_ref (tables example_world) (Meta (objs example_world ! 0)) \<and>
   (case expect_query True 0 ''select 1'' 0 ([], example_world) of (t', w') \<Rightarrow>
      objs w' ! 0 = objs example_world ! 0 \<and>
      map_of (rangeMap (tables w') (Meta (objs w' ! 0))) ''sql.query'' = None \<and>
      map_of (rangeMap (tables w') (Meta (objs w' ! 0))) ''db.user'' = Some ''reader'' \<and>
      take (length (objs example_world)) (objs w') = objs example_world \<and>
      tables w' ! 0 = tables example_world ! 0)"
proof -
  have p: "0 < length (objs example_world)"
    and v: "valid_ref (tables example_world) (Meta (objs example_world ! 0))"
    and m: "Meta (objs example_world ! 0) = MapAt (Suc 0)" "length (tables example_world) = 2"
    and u: "map_of (rangeMap (tables example_world) (MapAt (Suc 0))) ''db.user'' = Some ''reader''"
    by (simp_all add: example_world_def valid_ref_def rangeMap_def)
  from expect_query_clears_tag_only [OF p v, of True "''select 1''" 0 "[]"] p v
  show ?thesis
    by (auto simp: m u split: prod.splits)
qed

section \<open>The harness passes on the modelled handle\<close>

lemma set_update_fresh:
  "k \<notin> fst ` set xs \<Longrightarrow> set (AList.update k v xs) = insert (k, v) (set xs)"
  by (induction xs) auto

lemma delete_update_fresh:
  "k \<notin> fst ` set xs \<Longrightarrow> AList.delete k (AList.update k v xs) = xs"
  by (simp add: AList.delete_update_same)

lemma template_okD:
  assumes "template_ok p db w"
  shows "p < length (objs w)" and "valid_ref (tables w) (Meta (objs w ! p))"
    and "valid_ref (tables w) (descriptor db)"
    and "set (rangeMap (tables w) (Meta (objs w ! p))) = set (rangeMap (tables w) (descriptor db))"
    and "''sql.query'' \<notin> fst ` set (rangeMap (tables w) (Meta (objs w ! p)))"
  using assms unfolding template_ok_def by blast+

lemma span_matchesD:
  assumes "span_matches p db w a r stmt"
  shows "a < length (objs w)" and "Resource (objs w ! a) = r"
    and "valid_ref (tables w) (Meta (objs w ! a))"
    and "Meta (objs w ! a) \<noteq> Meta (objs w ! p)"
    and "set (rangeMap (tables w) (Meta (objs w ! a))) =
        (case stmt of
           None \<Rightarrow> set (rangeMap (tables w) (descriptor db))
         | Some q \<Rightarrow> insert (''sql.query'', q) (set (rangeMap (tables w) (descriptor db))))"
  using assms unfolding span_matches_def by blast+

lemma expect_resource_passes:
  assumes "template_ok p db w" and "span_matches p db w a l None"
  shows "fst (expect_resource share p l a (t, w)) = t"
proof -
  note tp = template_okD [OF assms(1)] and sm = span_matchesD [OF assms(2)]
  have a: "a < length (objs w)" and p: "p < length (objs w)"
    and r: "Resource (objs w ! a) = l"
    and va: "valid_ref (tables w) (Meta (objs w ! a))"
    and vp: "valid_ref (tables w) (Meta (objs w ! p))"
    and eq: "set (rangeMap (tables w) (Meta (objs w ! a))) = set (rangeMap (tables w) (Meta (objs w ! p)))"
    using tp sm by simp_all
  show ?thesis
  proof (cases share)
    case True
    with a p r eq show ?thesis
      by (simp add: expect_resource_def CopySpan_def set_Resource_def CompareSpan_def nth_append)
  next
    case False
    with a p r eq va vp show ?thesis
      by (simp add: expect_resource_def CopySpan_def copyMap_def set_Resource_def CompareSpan_def
          nth_append rangeMap_append rangeMap_last)
  qed
qed


lemma valid_ref_neq_fresh: "valid_ref h r \<Longrightarrow> r \<noteq> MapAt (length h)"
  by (cases r) (simp_all add: valid_ref_def)

lemma expect_query_passes:
  assumes "template_ok p db w" and "span_matches p db w a q (Some q)"
  shows "fst (expect_query share p q a (t, w)) = t"
proof -
  let ?T = "rangeMap (tables w) (Meta (objs w ! p))"
  note tp = template_okD [OF assms(1)] and sm = span_matchesD [OF assms(2)]
  have a: "a < length (objs w)" and p: "p < length (objs w)"
    and r: "Resource (objs w ! a) = q"
    and va: "valid_ref (tables w) (Meta (objs w ! a))"
    and vp: "valid_ref (tables w) (Meta (objs w ! p))"
    and ne: "Meta (objs w ! a) \<noteq> Meta (objs w ! p)"
    and fresh: "''sql.query'' \<notin> fst ` set ?T"
    by (rule sm tp)+
  have eq: "set (rangeMap (tables w) (Meta (objs w ! a))) = insert (''sql.query'', q) (set ?T)"
    using sm(5) tp(4) by simp
  note upd = set_update_fresh [OF fresh, of q]
  show ?thesis
  proof (cases "Meta (objs w ! p)")
    case NilMap
    with a p r eq va show ?thesis
      by (cases share)
         (simp_all add: expect_query_def CopySpan_def copyMap_def set_Resource_def SetMeta_def
           CompareSpan_def nth_append rangeMap_append rangeMap_last assign_def,
          simp_all add: rangeMap_def)
  next
    case (MapAt b)
    with vp have b: "b < length (tables w)" by (simp add: valid_ref_def)
    from MapAt upd have upd': "set (AList.update ''sql.query'' q (tables w ! b)) =
        insert (''sql.query'', q) (set (tables w ! b))"
      by (simp add: rangeMap_def)
    from MapAt eq have eq': "set (rangeMap (tables w) (Meta (objs w ! a))) =
        insert (''sql.query'', q) (set (tables w ! b))"
      by (simp add: rangeMap_def)
    show ?thesis
    proof (cases share)
      case True
      from ne MapAt va have other: "rangeMap ((tables w)[b := e]) (Meta (objs w ! a)) =
          rangeMap (tables w) (Meta (objs w ! a))" for e
        by (cases "Meta (objs w ! a)") (auto simp: rangeMap_def valid_ref_def)
      from True MapAt a p r b eq' upd' show ?thesis
        by (simp add: expect_query_def CopySpan_def set_Resource_def SetMeta_def
            CompareSpan_def nth_append assign_def other)
           (simp add: rangeMap_def)
    next
      case False
      with MapAt a p r b eq' upd' va show ?thesis
        by (simp add: expect_query_def CopySpan_def copyMap_def set_Resource_def SetMeta_def
            CompareSpan_def nth_append assign_def rangeMap_append rangeMap_last)
           (simp add: rangeMap_def)
    qed
  qed
qed

lemma prefix_nth: "prefix xs ys \<Longrightarrow> i < length xs \<Longrightarrow> ys ! i = xs ! i"
  by (auto simp: prefix_def nth_append)

lemma prefix_rangeMap: "prefix h h' \<Longrightarrow> valid_ref h r \<Longrightarrow> rangeMap h' r = rangeMap h r"
  by (auto simp: prefix_def rangeMap_append)

lemma prefix_valid_ref: "prefix h h' \<Longrightarrow> valid_ref h r \<Longrightarrow> valid_ref h' r"
  by (cases r) (auto simp: prefix_def valid_ref_def)

lemma stable_template:
  assumes "prefix (tables w) (tables w')" and "prefix (objs w) (objs w')"
    and "template_ok p db w"
  shows "template_ok p db w'"
proof -
  note tp = template_okD [OF assms(3)]
  have o: "objs w' ! p = objs w ! p" using assms(2) tp(1) by (rule prefix_nth)
  have "p < length (objs w')" using assms(2) tp(1) by (auto simp: prefix_def)
  moreover note prefix_valid_ref [OF assms(1) tp(2)] prefix_valid_ref [OF assms(1) tp(3)]
    prefix_rangeMap [OF assms(1) tp(2)] prefix_rangeMap [OF assms(1) tp(3)]
  ultimately show ?thesis using tp(4,5) by (simp add: template_ok_def o)
qed

lemma stable_span:
  assumes "prefix (tables w) (tables w')" and "prefix (objs w) (objs w')"
    and "template_ok p db w" and "span_matches p db w a r stmt"
  shows "span_matches p db w' a r stmt"
proof -
  note tp = template_okD [OF assms(3)] and sm = span_matchesD [OF assms(4)]
  have o: "objs w' ! p = objs w ! p" "objs w' ! a = objs w ! a"
    using assms(2) tp(1) sm(1) by (simp_all add: prefix_nth)
  have "a < length (objs w')" using assms(2) sm(1) by (auto simp: prefix_def)
  moreover note prefix_valid_ref [OF assms(1) sm(3)]
    prefix_rangeMap [OF assms(1) sm(3)] prefix_rangeMap [OF assms(1) tp(3)]
  ultimately show ?thesis using sm(2,4,5) by (simp add: span_matches_def o split: option.splits)
qed

lemma traced_call_extends:
  "prefix (tables w) (tables (traced_call w ty res stmt base ctx err))"
  "prefix (objs w) (objs (traced_call w ty res stmt base ctx err))"
  by (simp_all add: traced_call_eq)

lemma NewRootSpan_extends:
  "prefix (tables w) (tables (fst (NewRootSpan w name service res)))"
  "prefix (objs w) (objs (fst (NewRootSpan w name service res)))"
  by (simp_all add: NewRootSpan_def startSpan_def copyMap_def)

lemma flushed_same:
  "tables (fst (Traces (FlushTraces w))) = tables w"
  "objs (fst (Traces (FlushTraces w))) = objs w"
  by (simp_all add: Traces_def FlushTraces_def)

lemma expect_resource_extends:
  "prefix (tables (snd tw)) (tables (snd (expect_resource share p l a tw)))"
  "prefix (objs (snd tw)) (objs (snd (expect_resource share p l a tw)))"
  by (simp_all add: expect_resource_tables expect_resource_objs)

lemma expect_query_extends:
  assumes "template_ok p db (snd tw)"
  shows "prefix (tables (snd tw)) (tables (snd (expect_query share p q a tw)))"
    and "prefix (objs (snd tw)) (objs (snd (expect_query share p q a tw)))"
proof -
  note tp = template_okD [OF assms]
  show "prefix (objs (snd tw)) (objs (snd (expect_query share p q a tw)))"
    by (simp add: expect_query_objs)
  show "prefix (tables (snd tw)) (tables (snd (expect_query share p q a tw)))"
  proof (cases "Meta (objs (snd tw) ! p)")
    case NilMap
    with tp(1) show ?thesis
      by (simp add: expect_query_tables deleteKey_def)
  next
    case (MapAt b)
    with tp(2) have b: "b < length (tables (snd tw))" by (simp add: valid_ref_def)
    from tp(5) MapAt have fresh: "''sql.query'' \<notin> fst ` set (tables (snd tw) ! b)"
      by (simp add: rangeMap_def)
    from tp(1) MapAt b show ?thesis
      by (simp add: expect_query_tables deleteKey_def assign_def nth_append
          delete_update_fresh [OF fresh] AList.delete_id [OF fresh] list_update_append)
  qed
qed

lemma template_ok_traced_call:
  "template_ok p db w \<Longrightarrow> template_ok p db (traced_call w ty res stmt base ctx err)"
  by (rule stable_template [OF traced_call_extends])

lemma template_ok_NewRootSpan:
  "template_ok p db w \<Longrightarrow> template_ok p db (fst (NewRootSpan w name service res))"
  by (rule stable_template [OF NewRootSpan_extends])

lemma template_ok_flushed:
  "template_ok p db (fst (Traces (FlushTraces w))) = template_ok p db w"
  by (simp add: template_ok_def flushed_same)

lemma template_ok_expect_resource:
  "template_ok p db (snd tw) \<Longrightarrow> template_ok p db (snd (expect_resource share p l a tw))"
  by (rule stable_template [OF expect_resource_extends])

lemma template_ok_expect_query:
  assumes "template_ok p db (snd tw)"
  shows "template_ok p db (snd (expect_query share p q a tw))"
  using expect_query_extends [OF assms] assms by (rule stable_template)

lemmas template_ok_step =
  template_ok_traced_call template_ok_NewRootSpan template_ok_flushed
  template_ok_expect_resource template_ok_expect_query

lemma span_matches_traced_call:
  "a < length (objs w) \<Longrightarrow> template_ok p db w \<Longrightarrow> span_matches p db w a r stmt \<Longrightarrow>
     span_matches p db (traced_call w ty' r' stmt' base ctx err) a r stmt"
  by (rule stable_span [OF traced_call_extends])

lemma span_matches_flushed:
  "span_matches p db (fst (Traces (FlushTraces w))) a r stmt = span_matches p db w a r stmt"
  by (simp add: span_matches_def flushed_same cong: option.case_cong)

lemma span_matches_expect_resource:
  "template_ok p db (snd tw) \<Longrightarrow> span_matches p db (snd tw) a r stmt \<Longrightarrow>
     span_matches p db (snd (expect_resource share p l a' tw)) a r stmt"
  by (rule stable_span [OF expect_resource_extends])

lemma span_matches_expect_query:
  assumes "template_ok p db (snd tw)" and "span_matches p db (snd tw) a r stmt"
  shows "span_matches p db (snd (expect_query share p q a' tw)) a r stmt"
  using expect_query_extends [OF assms(1)] assms by (rule stable_span)

lemmas span_matches_step =
  span_matches_traced_call span_matches_flushed span_matches_expect_resource
  span_matches_expect_query

lemma span_matches_new:
  assumes "template_ok p db w" and "a = length (objs w)"
  shows "span_matches p db (traced_call w ty r stmt (descriptor db) ctx err) a r stmt"
proof -
  note tp = template_okD [OF assms(1)]
  let ?D = "rangeMap (tables w) (descriptor db)"
  from tp(4,5) have fresh: "''sql.query'' \<notin> fst ` set ?D" by simp
  have "MapAt (length (tables w)) \<noteq> Meta (objs w ! p)"
    using valid_ref_neq_fresh [OF tp(2)] by simp
  with tp(1,3) show ?thesis
    unfolding assms(2)
    by (cases stmt)
       (simp_all add: span_matches_def traced_call_eq nth_append rangeMap_last rangeMap_append
         valid_ref_def set_update_fresh [OF fresh])
qed

lemma expect_passes:
  "template_ok p db (snd tw) \<Longrightarrow> span_matches p db (snd tw) a l None \<Longrightarrow>
     fst (expect_resource share p l a tw) = fst tw"
  "template_ok p db (snd tw) \<Longrightarrow> span_matches p db (snd tw) a q (Some q) \<Longrightarrow>
     fst (expect_query share p q a tw) = fst tw"
  using expect_resource_passes [of p db "snd tw" a l share "fst tw"]
    expect_query_passes [of p db "snd tw" a q share "fst tw"]
  by simp_all

lemma assert_simps:
  "assert_Equal_nil t None = t"
  "length xs = n \<Longrightarrow> assert_Len t xs n = t"
  by (simp_all add: assert_Equal_nil_def assert_Len_def)

lemmas pass_simps =
  run_defs assert_simps template_ok_step span_matches_step span_matches_new

lemma testDB_passes:
  assumes "buffer w = []" "transport w = []" "template_ok p db w" "drv 0 = None" "drv 1 = None"
  shows "case testDB share drv db p (t, w) of
           Inl x \<Rightarrow> False
         | Inr (t', w') \<Rightarrow> t' = t \<and> buffer w' = [] \<and> transport w' = [] \<and> template_ok p db w'"
  using assms
  by (simp add: testDB_def Let_def split_beta pass_simps expect_passes [where db = db]
      cong: let_weak_cong and_then_weak_cong prod.case_cong_weak)

lemma testStatement_passes:
  assumes "buffer w = []" "transport w = []" "template_ok p db w" "drv 2 = None" "drv 3 = None"
  shows "case testStatement share drv db p (t, w) of
           Inl x \<Rightarrow> False
         | Inr (t', w') \<Rightarrow> t' = t \<and> buffer w' = [] \<and> transport w' = [] \<and> template_ok p db w'"
  using assms
  by (simp add: testStatement_def Let_def split_beta pass_simps expect_passes [where db = db]
      cong: let_weak_cong and_then_weak_cong prod.case_cong_weak)

lemma testTransaction_passes:
  assumes "buffer w = []" "transport w = []" "template_ok p db w"
    "drv 4 = None" "drv 5 = None" "drv 6 = None" "drv 7 = None" "drv 8 = None"
  shows "case testTransaction share drv db p (t, w) of
           Inl x \<Rightarrow> False
         | Inr (t', w') \<Rightarrow> t' = t \<and> buffer w' = [] \<and> transport w' = [] \<and> template_ok p db w'"
  using assms
  by (simp add: testTransaction_def Let_def split_beta pass_simps expect_passes [where db = db]
      cong: let_weak_cong and_then_weak_cong prod.case_cong_weak)

lemma all_tests_pass:
  assumes "buffer w = []" and "transport w = []" and "template_ok p db w"
    and "\<forall>i<9. drv i = None"
  shows "\<exists>w'. AllSQLTests share drv db p (t, w) = Inr (t, w') \<and> template_ok p db w'"
proof -
  from assms(4) have d: "drv 0 = None" "drv 1 = None" "drv 2 = None" "drv 3 = None"
    "drv 4 = None" "drv 5 = None" "drv 6 = None" "drv 7 = None" "drv 8 = None"
    by simp_all
  from testDB_passes [where drv = drv and w = w and p = p and db = db and share = share and t = t,
      OF assms(1-3) d(1,2)]
  obtain w1 where r1: "testDB share drv db p (t, w) = Inr (t, w1)"
    and f1: "buffer w1 = []" "transport w1 = []" "template_ok p db w1"
    by (cases "testDB share drv db p (t, w)") auto
  from testStatement_passes [where drv = drv and w = w1 and p = p and db = db and share = share
      and t = t, OF f1 d(3,4)]
  obtain w2 where r2: "testStatement share drv db p (t, w1) = Inr (t, w2)"
    and f2: "buffer w2 = []" "transport w2 = []" "template_ok p db w2"
    by (cases "testStatement share drv db p (t, w1)") auto
  from testTransaction_passes [where drv = drv and w = w2 and p = p and db = db and share = share
      and t = t, OF f2 d(5-9)]
  obtain w3 where r3: "testTransaction share drv db p (t, w2) = Inr (t, w3)"
    and f3: "template_ok p db w3"
    by (cases "testTransaction share drv db p (t, w2)") auto
  have "AllSQLTests share drv db p (t, w) = Inr (t, w3)"
    by (simp add: AllSQLTests_def r1 r2 r3 and_then_Inr)
  with f3 show ?thesis by blast
qed

text \<open>
  Claim C3.  Every operation of the traced handle submits exactly one span, of the
  operation's type, whose resource name is the statement text for query, prepare and exec
  (on a statement: the text it was prepared with) and the fixed label otherwise: Ping,
  Begin, Rollback, Commit.  These are the resource names the harness expects: run from a
  state with nothing buffered or captured, with a template that matches the handle and a
  driver that reports no error, the script ends without a panic and without a failed
  assertion, so every comparison of an expected span with the captured one succeeds.
\<close>

theorem resource_names:
  "map (\<lambda>s. (OpType s, Resource s)) (produced w (fst (DB_Ping db ctx err w))) =
     [(TConnectionCheck, ''Ping'')] \<and>
   map (\<lambda>s. (OpType s, Resource s)) (produced w (fst (DB_Query db ctx q err w))) = [(TQuery, q)] \<and>
   map (\<lambda>s. (OpType s, Resource s)) (produced w (fst (DB_Prepare db ctx q err w))) =
     [(TPrepare, q)] \<and>
   map (\<lambda>s. (OpType s, Resource s)) (produced w (fst (Stmt_Exec stmt ctx args err w))) =
     [(TExec, stmt_query stmt)] \<and>
   map (\<lambda>s. (OpType s, Resource s)) (produced w (fst (DB_Begin db err w))) = [(TBegin, ''Begin'')] \<and>
   map (\<lambda>s. (OpType s, Resource s)) (produced w (fst (DB_BeginTx db ctx err w))) =
     [(TBegin, ''Begin'')] \<and>
   map (\<lambda>s. (OpType s, Resource s)) (produced w (fst (Tx_Rollback tx err w))) =
     [(TRollback, ''Rollback'')] \<and>
   map (\<lambda>s. (OpType s, Resource s)) (produced w (fst (Tx_ExecContext tx ctx q err w))) =
     [(TExec, q)] \<and>
   map (\<lambda>s. (OpType s, Resource s)) (produced w (fst (Tx_Commit tx err w))) =
     [(TCommit, ''Commit'')] \<and>
   (buffer w = [] \<and> transport w = [] \<and> template_ok p db w \<and> (\<forall>i<9. drv i = None) \<longrightarrow>
      (\<exists>w'. AllSQLTests share drv db p ([], w) = Inr ([], w')))"
proof -
  have script: "buffer w = [] \<and> transport w = [] \<and> template_ok p db w \<and> (\<forall>i<9. drv i = None) \<longrightarrow>
      (\<exists>w'. AllSQLTests share drv db p ([], w) = Inr ([], w'))"
    using all_tests_pass [of w p db drv share "[]"] by blast
  have calls:
    "map (\<lambda>s. (OpType s, Resource s)) (produced w (fst (DB_Ping db ctx err w))) =
       [(TConnectionCheck, ''Ping'')]"
    "map (\<lambda>s. (OpType s, Resource s)) (produced w (fst (DB_Query db ctx q err w))) = [(TQuery, q)]"
    "map (\<lambda>s. (OpType s, Resource s)) (produced w (fst (DB_Prepare db ctx q err w))) =
       [(TPrepare, q)]"
    "map (\<lambda>s. (OpType s, Resource s)) (produced w (fst (Stmt_Exec stmt ctx args err w))) =
       [(TExec, stmt_query stmt)]"
    "map (\<lambda>s. (OpType s, Resource s)) (produced w (fst (DB_Begin db err w))) = [(TBegin, ''Begin'')]"
    "map (\<lambda>s. (OpType s, Resource s)) (produced w (fst (DB_BeginTx db ctx err w))) =
       [(TBegin, ''Begin'')]"
    "map (\<lambda>s. (OpType s, Resource s)) (produced w (fst (Tx_Rollback tx err w))) =
       [(TRollback, ''Rollback'')]"
    "map (\<lambda>s. (OpType s, Resource s)) (produced w (fst (Tx_ExecContext tx ctx q err w))) =
       [(TExec, q)]"
    "map (\<lambda>s. (OpType s, Resource s)) (produced w (fst (Tx_Commit tx err w))) =
       [(TCommit, ''Commit'')]"
    by (simp_all add: DB_Ping_def DB_Query_def DB_Prepare_def Stmt_Exec_def DB_Begin_def
        DB_BeginTx_def Tx_Rollback_def Tx_ExecContext_def Tx_Commit_def produced_traced_call)
  show ?thesis
    by (intro conjI) (rule calls script)+
qed

theorem resource_names_witness:
  "map (\<lambda>s. (OpType s, Resource s))
     (produced example_world
        (fst (DB_Ping example_db Background (Some ''connection refused'') example_world))) =
     [(TConnectionCheck, ''Ping'')] \<and>
   map (\<lambda>s. (OpType s, Resource s))
     (produced example_world
        (fst (DB_Query example_db Background ''select id, name, population from city limit 5''
                (Some ''connection refused'') example_world))) =
     [(TQuery, ''select id, name, population from city limit 5'')] \<and>
   buffer example_world = [] \<and> transport example_world = [] \<and>
   template_ok 0 example_db example_world \<and>
   (\<exists>w'. AllSQLTests True (\<lambda>i. None) example_db 0 ([], example_world) = Inr ([], w'))"
proof -
  have b: "buffer example_world = []" and t: "transport example_world = []"
    by (simp_all add: example_world_def)
  have ok: "template_ok 0 example_db example_world"
    by (simp add: template_ok_def example_world_def example_db_def valid_ref_def rangeMap_def)
  have d: "\<forall>i<9. (\<lambda>i::nat. None :: error) i = None" by simp
  from resource_names [where w = example_world and db = example_db and ctx = Background
      and err = "Some ''connection refused''" and p = 0 and drv = "\<lambda>i. None" and share = True
      and q = "''select id, name, population from city limit 5''"]
  show ?thesis using b t ok d by blast
qed

end
